theory Spec2Isabelle
  imports Complex_Main "HOL-Library.Word"
begin

section \<open>Numbers, errors and typed arrays of the host language\<close>

text \<open>
  The service module \<^verbatim>\<open>src/services/geminiService.ts\<close> works on typed arrays.
  A \<^verbatim>\<open>Uint8Array\<close> is a list of 8-bit words, an \<^verbatim>\<open>Int16Array\<close> a list of
  16-bit words read with \<open>sint\<close>. Numbers are modelled as rationals: a 32-bit
  float sample times or over 32768 is exact in a double, so the capture and the
  decoding arithmetic lose nothing. \<^verbatim>\<open>NaN\<close> and the infinities are outside the
  model, and so is the rounding of other double arithmetic.
\<close>

type_synonym byte = "8 word"
type_synonym int16 = "16 word"

text \<open>The exceptions and promise rejections the modelled code can meet.\<close>

datatype js_error =
  InvalidCharacterError | RangeError | TypeError | NotSupportedError | InvalidStateError
  | NotAllowedError | RemoteError string

text \<open>Sequencing of calls that may throw: the first exception ends the function.\<close>

definition bind_err :: "js_error + 'a \<Rightarrow> ('a \<Rightarrow> js_error + 'b) \<Rightarrow> js_error + 'b" where
  "bind_err r f = (case r of Inl e \<Rightarrow> Inl e | Inr x \<Rightarrow> f x)"

text \<open>
  Storing a number into an integer typed array or through a \<^verbatim>\<open>DataView\<close> setter
  truncates it towards zero and keeps the low bits (ECMAScript \<^verbatim>\<open>ToInt16\<close>,
  \<^verbatim>\<open>ToUint16\<close>, \<^verbatim>\<open>ToUint32\<close>); \<open>word_of_int\<close> keeps the low bits.
\<close>

definition js_trunc :: "rat \<Rightarrow> int" where
  "js_trunc x = (if x < 0 then \<lceil>x\<rceil> else \<lfloor>x\<rfloor>)"

definition to_int16 :: "rat \<Rightarrow> int16" where
  "to_int16 x = word_of_int (js_trunc x)"

definition to_uint16 :: "rat \<Rightarrow> 16 word" where
  "to_uint16 x = word_of_int (js_trunc x)"

definition to_uint32 :: "rat \<Rightarrow> 32 word" where
  "to_uint32 x = word_of_int (js_trunc x)"

text \<open>
  The two's complement value of an integer reduced modulo \<open>2 ^ 16\<close>, written
  out on \<open>int\<close>: the wording of the specification for the capture path.
\<close>

definition wrap_int16 :: "int \<Rightarrow> int" where
  "wrap_int16 n = (n + 32768) mod 65536 - 32768"

section \<open>Binary codec: base64\<close>

text \<open>
  \<^verbatim>\<open>encode\<close> and \<^verbatim>\<open>decode\<close> (lines 8-26) go through the platform functions
  \<^verbatim>\<open>btoa\<close> and \<^verbatim>\<open>atob\<close>, which are not part of the repository. They are
  modelled after the forgiving-base64 algorithms of the WHATWG Infra standard that
  the HTML standard prescribes for them. A binary string and a base64 text are
  values of type \<open>string\<close>, whose characters are 8 bits wide: a code unit above 255
  cannot be written, \<^verbatim>\<open>atob\<close> would reject it and \<^verbatim>\<open>btoa\<close> would raise on
  it, and \<^verbatim>\<open>encode\<close> never builds one.
\<close>

definition b64chars :: string where
  "b64chars = ''ABCDEFGHIJKLMNOPQRSTUVWXYZabcdefghijklmnopqrstuvwxyz0123456789+/''"

fun index_of :: "'a \<Rightarrow> 'a list \<Rightarrow> nat option" where
  "index_of x [] = None"
| "index_of x (y # ys) = (if x = y then Some 0 else map_option Suc (index_of x ys))"

text \<open>ASCII whitespace: tab, line feed, form feed, carriage return, space.\<close>

definition is_ascii_whitespace :: "char \<Rightarrow> bool" where
  "is_ascii_whitespace c = (c \<in> set [CHR 0x09, CHR 0x0A, CHR 0x0C, CHR 0x0D, CHR 0x20])"

text \<open>
  Three bytes make four 6-bit groups; a last group of one or two bytes is filled
  with zero bits. Backwards, four groups make three bytes, and a last group of two
  or three gives one or two bytes, the spare low bits dropped.
\<close>

fun to_sextets :: "nat list \<Rightarrow> nat list" where
  "to_sextets (a # b # c # rest) =
     [a div 4, (a mod 4) * 16 + b div 16, (b mod 16) * 4 + c div 64, c mod 64] @ to_sextets rest"
| "to_sextets [a, b] = [a div 4, (a mod 4) * 16 + b div 16, (b mod 16) * 4]"
| "to_sextets [a] = [a div 4, (a mod 4) * 16]"
| "to_sextets [] = []"

fun from_sextets :: "nat list \<Rightarrow> nat list" where
  "from_sextets (p # q # r # s # rest) =
     [p * 4 + q div 16, (q mod 16) * 16 + r div 4, (r mod 4) * 64 + s] @ from_sextets rest"
| "from_sextets [p, q, r] = [p * 4 + q div 16, (q mod 16) * 16 + r div 4]"
| "from_sextets [p, q] = [p * 4 + q div 16]"
| "from_sextets _ = []"

definition btoa :: "string \<Rightarrow> string" where
  "btoa s = map (\<lambda>n. b64chars ! n) (to_sextets (map of_char s))
            @ replicate ((3 - length s mod 3) mod 3) (CHR ''='')"

text \<open>
  Forgiving-base64 decode, step 2: when the length is a multiple of four, one or
  two trailing \<open>=\<close> are removed.
\<close>

definition strip_padding :: "string \<Rightarrow> string" where
  "strip_padding d =
     (if length d mod 4 = 0 then
        (if 2 \<le> length d \<and> drop (length d - 2) d = ''=='' then take (length d - 2) d
         else if 1 \<le> length d \<and> drop (length d - 1) d = ''='' then take (length d - 1) d
         else d)
      else d)"

definition atob :: "string \<Rightarrow> js_error + string" where
  "atob data =
     (let d = strip_padding (filter (\<lambda>c. \<not> is_ascii_whitespace c) data)
      in if length d mod 4 = 1 then Inl InvalidCharacterError
         else case those (map (\<lambda>c. index_of c b64chars) d) of
                None \<Rightarrow> Inl InvalidCharacterError
              | Some sextets \<Rightarrow> Inr (map char_of (from_sextets sextets)))"

text \<open>
  \<^verbatim>\<open>decode\<close> (lines 8-16): the loop copies the code of every character of the
  binary string into a fresh \<^verbatim>\<open>Uint8Array\<close> of the same length.
\<close>

definition decode :: "string \<Rightarrow> js_error + byte list" where
  "decode base64 =
     bind_err (atob base64) (\<lambda>binaryString.
       let len = length binaryString
       in Inr (fold (\<lambda>i bytes. bytes[i := word_of_nat (of_char (binaryString ! i))])
                 [0..<len] (replicate len 0)))"

text \<open>
  \<^verbatim>\<open>encode\<close> (lines 19-26): the loop appends \<^verbatim>\<open>String.fromCharCode(bytes[i])\<close>
  to the binary string, which is then handed to \<^verbatim>\<open>btoa\<close>.
\<close>

definition encode :: "byte list \<Rightarrow> string" where
  "encode bytes =
     (let len = length bytes;
          binary = fold (\<lambda>i binary. binary @ [char_of (unat (bytes ! i))]) [0..<len] []
      in btoa binary)"

section \<open>Binary codec: 16-bit PCM to playable frames\<close>

text \<open>
  \<^verbatim>\<open>new Int16Array(data.buffer)\<close> (line 35) views the whole byte buffer as 16-bit
  samples in platform byte order, little-endian on every supported platform, and
  throws a \<^verbatim>\<open>RangeError\<close> when the byte length is odd. The arrays handed to
  \<^verbatim>\<open>decodeAudioData\<close> own their buffer, so the buffer is the array.
\<close>

fun int16_view :: "byte list \<Rightarrow> int16 list" where
  "int16_view (lo # hi # rest) = word_cat hi lo # int16_view rest"
| "int16_view _ = []"

definition new_Int16Array :: "byte list \<Rightarrow> js_error + int16 list" where
  "new_Int16Array buffer =
     (if length buffer mod 2 \<noteq> 0 then Inl RangeError else Inr (int16_view buffer))"

record AudioBuffer =
  ab_sampleRate :: nat
  ab_length :: nat
  ab_channelData :: "rat list list"

definition duration :: "AudioBuffer \<Rightarrow> rat" where
  "duration b = of_nat (ab_length b) / of_nat (ab_sampleRate b)"

text \<open>
  \<^verbatim>\<open>ctx.createBuffer\<close> belongs to the Web Audio API. Its length argument is an
  \<^verbatim>\<open>unsigned long\<close>: a fractional number is truncated and reduced modulo
  \<open>2 ^ 32\<close>. It throws \<^verbatim>\<open>NotSupportedError\<close> when the channel count or the
  length is zero or an argument is outside the range the implementation supports;
  that range is a parameter of the model. The buffer starts out silent.
\<close>

record audio_limits =
  max_channels :: nat
  min_rate :: nat
  max_rate :: nat

definition createBuffer :: "audio_limits \<Rightarrow> nat \<Rightarrow> rat \<Rightarrow> nat \<Rightarrow> js_error + AudioBuffer" where
  "createBuffer ctx numberOfChannels len sampleRate =
     (let frames = unat (to_uint32 len)
      in if numberOfChannels = 0 \<or> max_channels ctx < numberOfChannels \<or> frames = 0
            \<or> sampleRate < min_rate ctx \<or> max_rate ctx < sampleRate
         then Inl NotSupportedError
         else Inr \<lparr>ab_sampleRate = sampleRate, ab_length = frames,
                   ab_channelData = replicate numberOfChannels (replicate frames 0)\<rparr>)"

text \<open>
  The inner loop of \<^verbatim>\<open>decodeAudioData\<close> (lines 41-43). \<^verbatim>\<open>frameCount\<close> is the
  quotient of line 36 and need not be whole, so the loop runs while \<open>i\<close> is below
  it; a store past the end of the channel array is ignored, as a typed array does.
\<close>

definition fill_channel :: "int16 list \<Rightarrow> nat \<Rightarrow> rat \<Rightarrow> nat \<Rightarrow> rat list \<Rightarrow> rat list" where
  "fill_channel dataInt16 numChannels frameCount channel channelData =
     fold (\<lambda>i channelData.
             if i < length channelData
             then channelData[i := of_int (sint (dataInt16 ! (i * numChannels + channel))) / 32768]
             else channelData)
       [0..<nat \<lceil>frameCount\<rceil>] channelData"

text \<open>
  \<^verbatim>\<open>decodeAudioData\<close> (lines 29-46). There is no check of the byte length against
  the channel count: the only failures are those of the two platform calls. With no
  channel at all the quotient of line 36 is infinite or undefined, which the length
  conversion turns into 0, the value of the division by zero here.
\<close>

definition decodeAudioData :: "byte list \<Rightarrow> audio_limits \<Rightarrow> nat \<Rightarrow> nat \<Rightarrow> js_error + AudioBuffer" where
  "decodeAudioData data ctx sampleRate numChannels =
     bind_err (new_Int16Array data) (\<lambda>dataInt16.
       let frameCount = of_nat (length dataInt16) / of_nat numChannels
       in bind_err (createBuffer ctx numChannels frameCount sampleRate) (\<lambda>buffer.
            Inr (fold (\<lambda>channel buffer.
                    buffer\<lparr>ab_channelData := (ab_channelData buffer)
                      [channel := fill_channel dataInt16 numChannels frameCount channel
                                    (ab_channelData buffer ! channel)]\<rparr>)
                   [0..<numChannels] buffer)))"

text \<open>What a caller sees of the outcome: the frame count, or nothing on failure.\<close>

definition frames_of :: "js_error + AudioBuffer \<Rightarrow> nat option" where
  "frames_of r = (case r of Inl e \<Rightarrow> None | Inr buffer \<Rightarrow> Some (ab_length buffer))"

text \<open>An implementation range that the Web Audio API requires at least.\<close>

definition reference_limits :: audio_limits where
  "reference_limits = \<lparr>max_channels = 32, min_rate = 8000, max_rate = 96000\<rparr>"

section \<open>Binary codec: WAV container\<close>

text \<open>
  A \<^verbatim>\<open>DataView\<close> over a buffer is the list of its bytes. Every setter throws a
  \<^verbatim>\<open>RangeError\<close> when the bytes it writes do not fit.
\<close>

definition write_bytes :: "byte list \<Rightarrow> nat \<Rightarrow> byte list \<Rightarrow> js_error + byte list" where
  "write_bytes view byteOffset bs =
     (if byteOffset + length bs \<le> length view
      then Inr (take byteOffset view @ bs @ drop (byteOffset + length bs) view)
      else Inl RangeError)"

definition bytes16 :: "16 word \<Rightarrow> bool \<Rightarrow> byte list" where
  "bytes16 w littleEndian =
     (let big = [ucast (drop_bit 8 w), ucast w] in if littleEndian then rev big else big)"

definition bytes32 :: "32 word \<Rightarrow> bool \<Rightarrow> byte list" where
  "bytes32 w littleEndian =
     (let big = [ucast (drop_bit 24 w), ucast (drop_bit 16 w), ucast (drop_bit 8 w), ucast w]
      in if littleEndian then rev big else big)"

definition setUint8 :: "byte list \<Rightarrow> nat \<Rightarrow> nat \<Rightarrow> js_error + byte list" where
  "setUint8 view byteOffset v = write_bytes view byteOffset [word_of_nat v]"

definition setUint16 :: "byte list \<Rightarrow> nat \<Rightarrow> rat \<Rightarrow> bool \<Rightarrow> js_error + byte list" where
  "setUint16 view byteOffset v littleEndian =
     write_bytes view byteOffset (bytes16 (to_uint16 v) littleEndian)"

definition setUint32 :: "byte list \<Rightarrow> nat \<Rightarrow> rat \<Rightarrow> bool \<Rightarrow> js_error + byte list" where
  "setUint32 view byteOffset v littleEndian =
     write_bytes view byteOffset (bytes32 (to_uint32 v) littleEndian)"

text \<open>\<^verbatim>\<open>writeString\<close> (lines 49-53): one \<^verbatim>\<open>setUint8\<close> per character.\<close>

fun writeString :: "byte list \<Rightarrow> nat \<Rightarrow> string \<Rightarrow> js_error + byte list" where
  "writeString view offset [] = Inr view"
| "writeString view offset (c # str) =
     bind_err (setUint8 view offset (of_char c)) (\<lambda>view. writeString view (Suc offset) str)"

record Blob =
  blob_bytes :: "byte list"
  blob_type :: string

text \<open>
  \<^verbatim>\<open>pcmToWav\<close> (lines 56-84), statement by statement. The last write is
  \<^verbatim>\<open>new Uint8Array(buffer, 44).set(pcmData)\<close>.
\<close>

definition pcmToWav :: "byte list \<Rightarrow> rat \<Rightarrow> rat \<Rightarrow> rat \<Rightarrow> js_error + Blob" where
  "pcmToWav pcmData sampleRate numChannels bitsPerSample =
     (let dataSize = length pcmData;
          buffer = replicate (44 + dataSize) (0 :: byte)
      in bind_err (writeString buffer 0 ''RIFF'') (\<lambda>view.
         bind_err (setUint32 view 4 (36 + of_nat dataSize) True) (\<lambda>view.
         bind_err (writeString view 8 ''WAVE'') (\<lambda>view.
         bind_err (writeString view 12 ''fmt '') (\<lambda>view.
         bind_err (setUint32 view 16 16 True) (\<lambda>view.
         bind_err (setUint16 view 20 1 True) (\<lambda>view.
         bind_err (setUint16 view 22 numChannels True) (\<lambda>view.
         bind_err (setUint32 view 24 sampleRate True) (\<lambda>view.
         bind_err (setUint32 view 28 (sampleRate * numChannels * (bitsPerSample / 8)) True) (\<lambda>view.
         bind_err (setUint16 view 32 (numChannels * (bitsPerSample / 8)) True) (\<lambda>view.
         bind_err (setUint16 view 34 bitsPerSample True) (\<lambda>view.
         bind_err (writeString view 36 ''data'') (\<lambda>view.
         bind_err (setUint32 view 40 (of_nat dataSize) True) (\<lambda>view.
         bind_err (write_bytes view 44 pcmData) (\<lambda>view.
         Inr \<lparr>blob_bytes = view, blob_type = ''audio/wav''\<rparr>)))))))))))))))"

text \<open>
  Reading the container back: a little-endian unsigned field, the bytes of an
  ASCII tag, and the bytes of a produced blob (none when the writer threw).
\<close>

definition uint_le :: "byte list \<Rightarrow> nat" where
  "uint_le bs = foldr (\<lambda>b acc. unat b + 256 * acc) bs 0"

definition ascii :: "string \<Rightarrow> byte list" where
  "ascii s = map (\<lambda>c. word_of_nat (of_char c)) s"

definition wav_bytes :: "js_error + Blob \<Rightarrow> byte list" where
  "wav_bytes r = (case r of Inl e \<Rightarrow> [] | Inr blob \<Rightarrow> blob_bytes blob)"

definition field :: "nat \<Rightarrow> nat \<Rightarrow> byte list \<Rightarrow> byte list" where
  "field first n bs = take n (drop first bs)"

section \<open>Microphone capture: float samples to 16-bit PCM\<close>

text \<open>
  The body of \<^verbatim>\<open>scriptProcessor.onaudioprocess\<close> (lines 323-333): every float
  sample is multiplied by 32768 and stored into a fresh \<^verbatim>\<open>Int16Array\<close> of the
  same length, with no clamping before the store; the bytes of that array are
  base64-encoded into the media frame.
\<close>

definition float_to_int16 :: "rat list \<Rightarrow> int16 list" where
  "float_to_int16 inputData = map (\<lambda>x. to_int16 (x * 32768)) inputData"

record pcm_blob =
  pcm_data :: string
  pcm_mimeType :: string

definition onaudioprocess :: "rat list \<Rightarrow> pcm_blob" where
  "onaudioprocess inputData =
     (let int16 = float_to_int16 inputData
      in \<lparr>pcm_data = encode (concat (map (\<lambda>w. bytes16 w True) int16)),
          pcm_mimeType = ''audio/pcm;rate=16000''\<rparr>)"

text \<open>
  What a media frame carries: the signed 16-bit samples found when its data is
  decoded from base64 and viewed as 16-bit PCM (none when that fails).
\<close>

definition frame_samples :: "pcm_blob \<Rightarrow> int list" where
  "frame_samples blob =
     (case bind_err (decode (pcm_data blob)) new_Int16Array of
        Inl e \<Rightarrow> []
      | Inr samples \<Rightarrow> map sint samples)"

section \<open>Long-running operation poller\<close>

text \<open>
  \<^verbatim>\<open>pollVeoOperation\<close> (lines 217-242) is a generator. Of an operation the code
  reads whether it is done and the URI of its first video. The remote side is a
  script: the outcomes of the successive status fetches, each either a new
  operation or a thrown error with its message. The run of the generator on a
  script is the list of snapshots it yields, whether it has finished, and the part
  of the script it has not asked for. A script that ends while the operation is
  pending leaves the generator suspended in its loop.
\<close>

record VeoGenerationState =
  progress :: nat
  message :: string
  videoUrl :: "string option"
  error :: "string option"

record operation =
  op_done :: bool
  op_uri :: "string option"

datatype fetch_result = Fetched operation | FetchFailed string

datatype loop_exit = Exited operation | Returned | Suspended

text \<open>The snapshot of line 228, for a given progress value.\<close>

definition processing :: "nat \<Rightarrow> VeoGenerationState" where
  "processing p =
     \<lparr>progress = p, message = ''Processing video...'', videoUrl = None, error = None\<rparr>"

fun poll_loop :: "operation \<Rightarrow> nat \<Rightarrow> fetch_result list
    \<Rightarrow> VeoGenerationState list \<times> loop_exit \<times> fetch_result list" where
  "poll_loop currentOperation prog [] =
     (if op_done currentOperation then ([], Exited currentOperation, [])
      else ([], Suspended, []))"
| "poll_loop currentOperation prog (r # rs) =
     (if op_done currentOperation then ([], Exited currentOperation, r # rs)
      else case r of
        Fetched operation' \<Rightarrow>
          (let prog' = min (prog + 5) 95;
               (ys, ex, rest) = poll_loop operation' prog' rs
           in (processing prog' # ys, ex, rest))
      | FetchFailed msg \<Rightarrow>
          ([\<lparr>progress = 100, message = ''Polling failed.'',
             videoUrl = None, error = Some msg\<rparr>], Returned, rs))"

text \<open>
  After the loop (lines 235-241): the link counts when it is present and not the
  empty string.
\<close>

definition final_state :: "string \<Rightarrow> operation \<Rightarrow> VeoGenerationState" where
  "final_state api_key currentOperation =
     (case op_uri currentOperation of
        Some downloadLink \<Rightarrow>
          (if downloadLink \<noteq> [] then
             \<lparr>progress = 100, message = ''Video generated successfully!'',
              videoUrl = Some (downloadLink @ ''&key='' @ api_key), error = None\<rparr>
           else
             \<lparr>progress = 100, message = ''Generation failed to produce a video.'',
              videoUrl = None, error = Some ''No video URI found in response.''\<rparr>)
      | None \<Rightarrow>
          \<lparr>progress = 100, message = ''Generation failed to produce a video.'',
           videoUrl = None, error = Some ''No video URI found in response.''\<rparr>)"

record poll_run =
  emitted :: "VeoGenerationState list"
  finished :: bool
  unread :: "fetch_result list"

definition pollVeoOperation :: "string \<Rightarrow> operation \<Rightarrow> fetch_result list \<Rightarrow> poll_run" where
  "pollVeoOperation api_key operation rs =
     (let first = \<lparr>progress = 10, message = ''Operation started. Waiting for completion...'',
                   videoUrl = None, error = None\<rparr>;
          (ys, ex, rest) = poll_loop operation 10 rs
      in case ex of
           Exited currentOperation \<Rightarrow>
             \<lparr>emitted = first # ys @ [final_state api_key currentOperation],
              finished = True, unread = rest\<rparr>
         | Returned \<Rightarrow> \<lparr>emitted = first # ys, finished = True, unread = rest\<rparr>
         | Suspended \<Rightarrow> \<lparr>emitted = first # ys, finished = False, unread = rest\<rparr>)"

definition pending :: operation where
  "pending = \<lparr>op_done = False, op_uri = None\<rparr>"

section \<open>Live audio session: playback of inbound frames\<close>

text \<open>
  The state that \<^verbatim>\<open>onmessage\<close> (lines 342-364) works on: the cursor
  \<^verbatim>\<open>nextStartTime\<close>, the set \<^verbatim>\<open>sources\<close> in insertion order, the sources on
  which \<^verbatim>\<open>stop()\<close> was called, the number of sources created so far, which
  names the next one, and the messages forwarded to the caller. A source node
  records the buffer it plays and the time given to \<^verbatim>\<open>start\<close>. The handler
  runs to its end before the next message is delivered; \<^verbatim>\<open>currentTime\<close> is the
  clock of the output context when it runs.
\<close>

record AudioBufferSourceNode =
  node_id :: nat
  node_buffer :: AudioBuffer
  node_start :: rat

text \<open>
  Of an inbound message the handler reads
  \<^verbatim>\<open>serverContent?.modelTurn?.parts[0]?.inlineData?.data\<close> and
  \<^verbatim>\<open>serverContent?.interrupted\<close>. The server content, the model turn and the
  list of parts may each be absent; a part gives the data of its inline data, if it
  has any.
\<close>

record Part =
  part_data :: "string option"

record Content =
  content_parts :: "Part list option"

record LiveServerContent =
  sc_modelTurn :: "Content option"
  sc_interrupted :: bool

record LiveServerMessage =
  serverContent :: "LiveServerContent option"

record playback =
  nextStartTime :: rat
  sources :: "AudioBufferSourceNode list"
  stopped :: "nat list"
  created :: nat
  forwarded :: "LiveServerMessage list"

text \<open>
  Lines 347-355. A frame that fails to decode throws after the cursor was moved
  up to the clock, and schedules nothing.
\<close>

definition schedule_audio :: "audio_limits \<Rightarrow> rat \<Rightarrow> string \<Rightarrow> playback \<Rightarrow> js_error option \<times> playback" where
  "schedule_audio ctx currentTime base64Audio st =
     (let st = st\<lparr>nextStartTime := max (nextStartTime st) currentTime\<rparr>
      in case bind_err (decode base64Audio)
                (\<lambda>bytes. decodeAudioData bytes ctx 24000 1) of
           Inl e \<Rightarrow> (Some e, st)
         | Inr audioBuffer \<Rightarrow>
             (let source = \<lparr>node_id = created st, node_buffer = audioBuffer,
                            node_start = nextStartTime st\<rparr>
              in (None, st\<lparr>created := Suc (created st),
                            nextStartTime := nextStartTime st + duration audioBuffer,
                            sources := sources st @ [source]\<rparr>)))"

text \<open>Lines 358-362: every source of the set is stopped and deleted.\<close>

definition stop_source :: "AudioBufferSourceNode \<Rightarrow> playback \<Rightarrow> playback" where
  "stop_source source st =
     st\<lparr>stopped := stopped st @ [node_id source],
        sources := filter (\<lambda>s. node_id s \<noteq> node_id source) (sources st)\<rparr>"

definition interrupt :: "playback \<Rightarrow> playback" where
  "interrupt st = (fold stop_source (sources st) st)\<lparr>nextStartTime := 0\<rparr>"

text \<open>The \<^verbatim>\<open>ended\<close> listener of line 352.\<close>

definition source_ended :: "nat \<Rightarrow> playback \<Rightarrow> playback" where
  "source_ended ident st = st\<lparr>sources := filter (\<lambda>s. node_id s \<noteq> ident) (sources st)\<rparr>"

text \<open>
  Line 345. The optional chain stops at an absent server content or model turn,
  but \<^verbatim>\<open>parts[0]\<close> is read without a guard: a model turn without parts throws
  a \<^verbatim>\<open>TypeError\<close>. An empty list of parts has no first part.
\<close>

definition msg_audio :: "LiveServerMessage \<Rightarrow> js_error + string option" where
  "msg_audio msg =
     (case serverContent msg of
        None \<Rightarrow> Inr None
      | Some content \<Rightarrow>
          (case sc_modelTurn content of
             None \<Rightarrow> Inr None
           | Some turn \<Rightarrow>
               (case content_parts turn of
                  None \<Rightarrow> Inl TypeError
                | Some [] \<Rightarrow> Inr None
                | Some (part # rest) \<Rightarrow> Inr (part_data part))))"

text \<open>Line 357: an absent flag counts as false.\<close>

definition msg_interrupted :: "LiveServerMessage \<Rightarrow> bool" where
  "msg_interrupted msg =
     (case serverContent msg of None \<Rightarrow> False | Some content \<Rightarrow> sc_interrupted content)"

text \<open>
  \<^verbatim>\<open>onmessage\<close> (lines 342-364). The message is forwarded to the caller first.
  There is no \<^verbatim>\<open>try\<close> in the handler: whatever the audio part throws ends it
  before the interruption part.
\<close>

definition onmessage :: "audio_limits \<Rightarrow> rat \<Rightarrow> LiveServerMessage \<Rightarrow> playback \<Rightarrow> js_error option \<times> playback" where
  "onmessage ctx currentTime msg st =
     (let st = st\<lparr>forwarded := forwarded st @ [msg]\<rparr>
      in case msg_audio msg of
           Inl e \<Rightarrow> (Some e, st)
         | Inr base64Audio \<Rightarrow>
             (let (err, st) = (case base64Audio of
                                None \<Rightarrow> (None, st)
                              | Some a \<Rightarrow>
                                  if a \<noteq> []
                                  then schedule_audio ctx currentTime a st
                                  else (None, st))
              in case err of
                   Some e \<Rightarrow> (Some e, st)
                 | None \<Rightarrow> (None, if msg_interrupted msg then interrupt st else st)))"

text \<open>
  Sample inbound messages: a message with one part of audio data and an
  interruption flag; two zero bytes in base64, one silent 16-bit sample, and the
  buffer they decode to; an interruption alone; and an interruption whose model
  turn has no parts.
\<close>

definition audio_message :: "string \<Rightarrow> bool \<Rightarrow> LiveServerMessage" where
  "audio_message a flag =
     \<lparr>serverContent = Some \<lparr>sc_modelTurn = Some \<lparr>content_parts = Some [\<lparr>part_data = Some a\<rparr>]\<rparr>,
                             sc_interrupted = flag\<rparr>\<rparr>"

definition silent_frame :: LiveServerMessage where
  "silent_frame = audio_message ''AAA='' False"

definition interruption :: LiveServerMessage where
  "interruption = \<lparr>serverContent = Some \<lparr>sc_modelTurn = None, sc_interrupted = True\<rparr>\<rparr>"

definition interruption_without_parts :: LiveServerMessage where
  "interruption_without_parts =
     \<lparr>serverContent = Some \<lparr>sc_modelTurn = Some \<lparr>content_parts = None\<rparr>,
                             sc_interrupted = True\<rparr>\<rparr>"

definition silence :: AudioBuffer where
  "silence = \<lparr>ab_sampleRate = 24000, ab_length = 1, ab_channelData = [[0]]\<rparr>"

definition initial_playback :: playback where
  "initial_playback =
     \<lparr>nextStartTime = 0, sources = [], stopped = [], created = 0, forwarded = []\<rparr>"

section \<open>Live audio session: opening and closing\<close>

text \<open>
  The resources \<^verbatim>\<open>startLiveConversation\<close> (lines 304-387) captures, with the
  state the platform keeps for each: the tracks of the microphone stream, the two
  audio contexts, the capture node and the remote session. The three variables
  assigned in \<^verbatim>\<open>onopen\<close> stay \<^verbatim>\<open>null\<close> until then. The model also keeps the
  release calls made so far and the rejected promises that nothing handles.
\<close>

datatype context_state = Running | Closed
datatype track_state = Live | Ended
datatype node_state = Connected | Disconnected
datatype socket_state = SocketOpen | SocketClosed

datatype release_call =
  ProcessorDisconnect | InputContextClose | TrackStop nat | OutputContextClose | SessionClose

record live_resources =
  audioStream :: "track_state list option"
  inputAudioContext :: "context_state option"
  scriptProcessor :: "node_state option"
  outputAudioContext :: context_state
  session :: socket_state
  release_calls :: "release_call list"
  unhandled_rejections :: "js_error list"

text \<open>
  The environment of an open: whether the connection is established (or the
  connect call rejects with an error), and whether \<^verbatim>\<open>getUserMedia\<close> grants a
  stream of so many tracks or rejects.
\<close>

record live_env =
  connect_result :: "js_error option"
  getUserMedia_result :: "js_error + nat"

text \<open>
  \<^verbatim>\<open>onopen\<close> (lines 317-341) is an \<^verbatim>\<open>async\<close> callback. The SDK declares it
  as returning nothing and drops the promise it returns, so a rejection of
  \<^verbatim>\<open>getUserMedia\<close> ends the callback and is handled by nobody.
\<close>

definition onopen :: "live_env \<Rightarrow> live_resources \<Rightarrow> live_resources" where
  "onopen env r =
     (case getUserMedia_result env of
        Inl e \<Rightarrow> r\<lparr>unhandled_rejections := unhandled_rejections r @ [e]\<rparr>
      | Inr tracks \<Rightarrow>
          r\<lparr>audioStream := Some (replicate tracks Live),
            inputAudioContext := Some Running,
            scriptProcessor := Some Connected\<rparr>)"

text \<open>
  \<^verbatim>\<open>startLiveConversation\<close>: the awaited \<^verbatim>\<open>sessionPromise\<close> (line 376)
  settles with the connection alone; the result is the handle, given here by the
  resources its \<^verbatim>\<open>close\<close> works on.
\<close>

definition startLiveConversation :: "live_env \<Rightarrow> js_error + live_resources" where
  "startLiveConversation env =
     (let r = \<lparr>audioStream = None, inputAudioContext = None, scriptProcessor = None,
               outputAudioContext = Running, session = SocketOpen,
               release_calls = [], unhandled_rejections = []\<rparr>
      in case connect_result env of
           Some e \<Rightarrow> Inl e
         | None \<Rightarrow> Inr (onopen env r))"

text \<open>
  \<^verbatim>\<open>AudioContext.close()\<close> returns a promise; on a context that is already
  closed the promise is rejected with \<^verbatim>\<open>InvalidStateError\<close>. The handle drops
  the promise.
\<close>

definition context_close :: "release_call \<Rightarrow> context_state \<Rightarrow> live_resources
    \<Rightarrow> context_state \<times> live_resources" where
  "context_close call c r =
     (let r = r\<lparr>release_calls := release_calls r @ [call]\<rparr>
      in case c of
           Running \<Rightarrow> (Closed, r)
         | Closed \<Rightarrow>
             (Closed, r\<lparr>unhandled_rejections := unhandled_rejections r @ [InvalidStateError]\<rparr>))"

text \<open>
  \<^verbatim>\<open>close\<close> (lines 379-385), statement by statement. Disconnecting a node,
  stopping a track and closing the session are accepted in any state. No statement
  throws, so the function always returns.
\<close>

definition close :: "live_resources \<Rightarrow> live_resources" where
  "close r =
     (let r = (case scriptProcessor r of
                 None \<Rightarrow> r
               | Some node \<Rightarrow> r\<lparr>scriptProcessor := Some Disconnected,
                              release_calls := release_calls r @ [ProcessorDisconnect]\<rparr>);
          r = (case inputAudioContext r of
                 None \<Rightarrow> r
               | Some c \<Rightarrow> (let (c, r) = context_close InputContextClose c r
                            in r\<lparr>inputAudioContext := Some c\<rparr>));
          r = (case audioStream r of
                 None \<Rightarrow> r
               | Some tracks \<Rightarrow>
                   r\<lparr>audioStream := Some (map (\<lambda>track. Ended) tracks),
                     release_calls := release_calls r @ map TrackStop [0..<length tracks]\<rparr>);
          r = (let (c, r) = context_close OutputContextClose (outputAudioContext r) r
               in r\<lparr>outputAudioContext := c\<rparr>)
      in r\<lparr>session := SocketClosed, release_calls := release_calls r @ [SessionClose]\<rparr>)"

text \<open>The state of the five resources, without the two logs.\<close>

definition resource_state :: "live_resources
    \<Rightarrow> track_state list option \<times> context_state option \<times> node_state option \<times> context_state \<times> socket_state" where
  "resource_state r =
     (audioStream r, inputAudioContext r, scriptProcessor r, outputAudioContext r, session r)"

text \<open>A session opened with a one-track microphone stream.\<close>

definition open_session :: live_resources where
  "open_session =
     \<lparr>audioStream = Some [Live], inputAudioContext = Some Running,
      scriptProcessor = Some Connected, outputAudioContext = Running, session = SocketOpen,
      release_calls = [], unhandled_rejections = []\<rparr>"

section \<open>Properties of the base64 codec\<close>

lemma fold_snoc_upt:
  "n \<le> length xs \<Longrightarrow> fold (\<lambda>i acc. acc @ [f (xs ! i)]) [0..<n] acc = acc @ map f (take n xs)"
proof (induction n)
  case 0
  then show ?case by simp
next
  case (Suc n)
  then show ?case by (simp add: take_Suc_conv_app_nth)
qed

lemma fold_update_upt:
  "m \<le> length ys \<Longrightarrow> fold (\<lambda>i ys. ys[i := g i]) [0..<m] ys = map g [0..<m] @ drop m ys"
proof (induction m)
  case 0
  then show ?case by simp
next
  case (Suc m)
  then have "m < length ys" by simp
  then have "(map g [0..<m] @ drop m ys)[m := g m] = map g [0..<m] @ g m # drop (Suc m) ys"
    by (simp add: list_update_append Cons_nth_drop_Suc[symmetric])
  with Suc show ?case by simp
qed

lemma split_hi: "r < m \<Longrightarrow> (q * m + r) div m = (q::nat)"
  by simp

lemma split_lo: "r < m \<Longrightarrow> (q * m + r) mod m = (r::nat)"
  by simp

lemma sextet_facts:
  assumes "a < (256::nat)" "b < 256" "c < 256"
  shows "(a div 4) * 4 + ((a mod 4) * 16 + b div 16) div 16 = a"
    and "(((a mod 4) * 16 + b div 16) mod 16) * 16 + ((b mod 16) * 4 + c div 64) div 4 = b"
    and "(((b mod 16) * 4 + c div 64) mod 4) * 64 + c mod 64 = c"
    and "(((a mod 4) * 16 + b div 16) mod 16) * 16 + ((b mod 16) * 4) div 4 = b"
    and "(a div 4) * 4 + ((a mod 4) * 16) div 16 = a"
    and "a div 4 < 64" and "(a mod 4) * 16 + b div 16 < 64" and "(b mod 16) * 4 + c div 64 < 64"
    and "c mod 64 < 64" and "(b mod 16) * 4 < 64" and "(a mod 4) * 16 < 64"
proof -
  have b16: "b div 16 < 16" and c64: "c div 64 < 4" using assms by simp_all
  show "(a div 4) * 4 + ((a mod 4) * 16 + b div 16) div 16 = a"
    by (simp add: split_hi[OF b16])
  show "(((a mod 4) * 16 + b div 16) mod 16) * 16 + ((b mod 16) * 4 + c div 64) div 4 = b"
    by (simp add: split_lo[OF b16] split_hi[OF c64] mod_less[OF b16])
  show "(((b mod 16) * 4 + c div 64) mod 4) * 64 + c mod 64 = c"
    by (simp add: split_lo[OF c64] mod_less[OF c64])
  show "(((a mod 4) * 16 + b div 16) mod 16) * 16 + ((b mod 16) * 4) div 4 = b"
    by (simp add: split_lo[OF b16] mod_less[OF b16])
  show "(a div 4) * 4 + ((a mod 4) * 16) div 16 = a"
    by simp
  show "a div 4 < 64" using assms by simp
  have "a mod 4 \<le> 3" "b mod 16 \<le> 15" by simp_all
  with b16 c64 show "(a mod 4) * 16 + b div 16 < 64" "(b mod 16) * 4 + c div 64 < 64"
    "(b mod 16) * 4 < 64" "(a mod 4) * 16 < 64" by linarith+
  show "c mod 64 < 64" by simp
qed

lemma sextets_roundtrip:
  "\<forall>x\<in>set bs. x < 256 \<Longrightarrow> from_sextets (to_sextets bs) = bs"
proof (induction bs rule: to_sextets.induct)
  case (1 a b c rest)
  then have "a < 256" "b < 256" "c < 256" by auto
  from sextet_facts(1-3)[OF this] 1 show ?case by simp
next
  case (2 a b)
  then have "a < 256" "b < 256" by auto
  from sextet_facts(1,4)[OF this this(2)] show ?case by simp
next
  case (3 a)
  then have "a < 256" by auto
  from sextet_facts(5)[OF this this this] show ?case by simp
next
  case 4
  then show ?case by simp
qed

lemma sextets_bound:
  "\<forall>x\<in>set bs. x < 256 \<Longrightarrow> \<forall>n\<in>set (to_sextets bs). n < 64"
proof (induction bs rule: to_sextets.induct)
  case (1 a b c rest)
  then have "a < 256" "b < 256" "c < 256" by auto
  from sextet_facts(6-9)[OF this] 1 show ?case by simp
next
  case (2 a b)
  then have "a < 256" "b < 256" by auto
  from sextet_facts(6,7,10)[OF this this(2)] show ?case by simp
next
  case (3 a)
  then have "a < 256" by auto
  from sextet_facts(6,11)[OF this this this] show ?case by simp
next
  case 4
  then show ?case by simp
qed

lemma length_to_sextets: "length (to_sextets bs) = (4 * length bs + 2) div 3"
  by (induction bs rule: to_sextets.induct) simp_all

lemma index_of_nth: "distinct xs \<Longrightarrow> n < length xs \<Longrightarrow> index_of (xs ! n) xs = Some n"
proof (induction xs arbitrary: n)
  case Nil
  then show ?case by simp
next
  case (Cons x xs)
  then show ?case by (cases n) auto
qed

lemma those_index_of:
  "distinct xs \<Longrightarrow> \<forall>n\<in>set ns. n < length xs \<Longrightarrow>
   those (map (\<lambda>c. index_of c xs) (map (\<lambda>n. xs ! n) ns)) = Some ns"
  by (induction ns) (simp_all add: index_of_nth)

lemma b64chars_distinct: "distinct b64chars"
  by (simp add: b64chars_def)

lemma b64chars_length: "length b64chars = 64"
  by (simp add: b64chars_def)

lemma b64chars_all_plain: "\<forall>c\<in>set b64chars. \<not> is_ascii_whitespace c \<and> c \<noteq> CHR ''=''"
  by (simp add: b64chars_def is_ascii_whitespace_def)

lemma b64chars_plain: "c \<in> set b64chars \<Longrightarrow> \<not> is_ascii_whitespace c \<and> c \<noteq> CHR ''=''"
  using b64chars_all_plain by blast

lemma pad_cases:
  fixes n :: nat
  obtains (p0) q where "n = 3 * q" "(3 - n mod 3) mod 3 = 0" "(4 * n + 2) div 3 = 4 * q"
  | (p1) q where "n = 3 * q + 1" "(3 - n mod 3) mod 3 = 2" "(4 * n + 2) div 3 = 4 * q + 2"
  | (p2) q where "n = 3 * q + 2" "(3 - n mod 3) mod 3 = 1" "(4 * n + 2) div 3 = 4 * q + 3"
proof -
  have "n mod 3 = 0 \<or> n mod 3 = 1 \<or> n mod 3 = 2" by linarith
  then show thesis
  proof (elim disjE)
    assume h: "n mod 3 = 0"
    then have "n = 3 * (n div 3)" by presburger
    then show thesis using p0[of "n div 3"] h by auto
  next
    assume h: "n mod 3 = 1"
    then have n: "n = 3 * (n div 3) + 1" by presburger
    have "(4 * (3 * (n div 3) + 1) + 2) div 3 = 4 * (n div 3) + 2" by simp
    then show thesis using p1[of "n div 3"] h n by auto
  next
    assume h: "n mod 3 = 2"
    then have n: "n = 3 * (n div 3) + 2" by presburger
    have "(4 * (3 * (n div 3) + 2) + 2) div 3 = 4 * (n div 3) + 3" by simp
    then show thesis using p2[of "n div 3"] h n by auto
  qed
qed

lemma strip_padding_body:
  assumes "CHR ''='' \<notin> set body" "length body mod 4 \<noteq> 1"
    and "(length body + k) mod 4 = 0" "k \<le> 2"
  shows "strip_padding (body @ replicate k (CHR ''='')) = body"
proof -
  consider "k = 0" | "k = 1" | "k = 2" using assms(4) by linarith
  then show ?thesis
  proof cases
    case 1
    have "drop (length body - 2) body \<noteq> ''==''"
    proof
      assume "drop (length body - 2) body = ''==''"
      then have "CHR ''='' \<in> set (drop (length body - 2) body)" by simp
      then show False using assms(1) by (meson in_set_dropD)
    qed
    moreover have "drop (length body - 1) body \<noteq> ''=''"
    proof
      assume "drop (length body - 1) body = ''=''"
      then have "CHR ''='' \<in> set (drop (length body - 1) body)" by simp
      then show False using assms(1) by (meson in_set_dropD)
    qed
    ultimately show ?thesis using 1 by (simp add: strip_padding_def)
  next
    case 2
    from assms(3) 2 have ne: "body \<noteq> []" by auto
    then obtain ys y where b: "body = ys @ [y]" by (metis rev_exhaust)
    with assms(1) have "y \<noteq> CHR ''=''" by auto
    then show ?thesis using 2 b assms(3) by (simp add: strip_padding_def)
  next
    case 3
    then show ?thesis using assms(3) by (simp add: strip_padding_def numeral_2_eq_2)
  qed
qed

lemma atob_btoa: "atob (btoa s) = Inr s"
proof -
  define bs :: "nat list" where "bs = map of_char s"
  define body where "body = map (\<lambda>n. b64chars ! n) (to_sextets bs)"
  define k where "k = (3 - length s mod 3) mod 3"
  have bytes: "\<forall>x\<in>set bs. x < 256" by (simp add: bs_def)
  have six: "\<forall>n\<in>set (to_sextets bs). n < length b64chars"
    using sextets_bound[OF bytes] by (simp add: b64chars_length)
  have inset: "set body \<subseteq> set b64chars"
    using six by (auto simp: body_def)
  have plain: "\<forall>c\<in>set body. \<not> is_ascii_whitespace c" and noeq: "CHR ''='' \<notin> set body"
    using inset b64chars_plain by blast+
  have lb: "length body = (4 * length s + 2) div 3"
    by (simp add: body_def bs_def length_to_sextets)
  have kl: "k \<le> 2 \<and> length body mod 4 \<noteq> 1 \<and> (length body + k) mod 4 = 0"
  proof (cases "length s" rule: pad_cases)
    case (p0 q)
    have a: "length body = 4 * q" and b: "k = 0" using lb k_def p0(2,3) by (simp_all only:)
    show ?thesis unfolding a b by presburger
  next
    case (p1 q)
    have a: "length body = 4 * q + 2" and b: "k = 2" using lb k_def p1(2,3) by (simp_all only:)
    show ?thesis unfolding a b by presburger
  next
    case (p2 q)
    have a: "length body = 4 * q + 3" and b: "k = 1" using lb k_def p2(2,3) by (simp_all only:)
    show ?thesis unfolding a b by presburger
  qed
  then have k2: "k \<le> 2" and l1: "length body mod 4 \<noteq> 1" and l0: "(length body + k) mod 4 = 0"
    by blast+
  have eq: "btoa s = body @ replicate k (CHR ''='')"
    by (simp add: btoa_def body_def bs_def k_def)
  have eqsign: "\<not> is_ascii_whitespace (CHR ''='')"
    by (simp add: is_ascii_whitespace_def)
  have "\<forall>c\<in>set (body @ replicate k (CHR ''='')). \<not> is_ascii_whitespace c"
    using plain eqsign by auto
  then have nw: "filter (\<lambda>c. \<not> is_ascii_whitespace c) (btoa s) = btoa s"
    unfolding eq by (simp only: filter_id_conv)
  have st: "strip_padding (btoa s) = body"
    unfolding eq by (rule strip_padding_body[OF noeq l1 l0 k2])
  have th: "those (map (\<lambda>c. index_of c b64chars) body) = Some (to_sextets bs)"
    unfolding body_def by (rule those_index_of[OF b64chars_distinct six])
  have rt: "map char_of (from_sextets (to_sextets bs)) = s"
    unfolding sextets_roundtrip[OF bytes] by (simp add: bs_def comp_def)
  show ?thesis
    using l1 by (simp add: atob_def nw st th rt)
qed

lemma encode_binary: "encode b = btoa (map (\<lambda>x. char_of (unat x)) b)"
  using fold_snoc_upt[of "length b" b "\<lambda>x. char_of (unat x)" "[]"]
  by (simp add: encode_def Let_def)

lemma decode_binary:
  "decode s = bind_err (atob s) (\<lambda>t. Inr (map (\<lambda>c. word_of_nat (of_char c)) t))"
proof -
  have "fold (\<lambda>i bytes. bytes[i := word_of_nat (of_char (t ! i))]) [0..<length t]
          (replicate (length t) (0::byte))
        = map (\<lambda>c. word_of_nat (of_char c)) t" for t :: string
  proof -
    have "fold (\<lambda>i bytes. bytes[i := word_of_nat (of_char (t ! i))]) [0..<length t]
            (replicate (length t) (0::byte))
          = map (\<lambda>i. word_of_nat (of_char (t ! i))) [0..<length t]"
      using fold_update_upt[of "length t" "replicate (length t) (0::byte)"] by simp
    also have "\<dots> = map (\<lambda>c. word_of_nat (of_char c)) (map (\<lambda>i. t ! i) [0..<length t])"
      by (simp add: comp_def)
    finally show ?thesis by (simp add: map_nth)
  qed
  then show ?thesis by (simp add: decode_def Let_def)
qed

lemma byte_of_char_of:
  "map (\<lambda>c. word_of_nat (of_char c)) (map (\<lambda>x. char_of (unat x)) b) = (b :: byte list)"
proof -
  have "word_of_nat (of_char (char_of (unat x) :: char)) = x" for x :: byte
  proof -
    have "unat x < 256" using unsigned_less[of x] by simp
    then show ?thesis by simp
  qed
  then show ?thesis by (simp add: comp_def)
qed

text \<open>
  Claim C1. Decoding the base64 text that encoding produced from a byte sequence
  succeeds and gives back exactly that byte sequence.
\<close>

theorem decode_encode_roundtrip: "decode (encode b) = Inr b"
proof -
  have "atob (encode b) = Inr (map (\<lambda>x. char_of (unat x)) b)"
    unfolding encode_binary by (rule atob_btoa)
  then show ?thesis
    unfolding decode_binary by (simp add: bind_err_def byte_of_char_of del: map_map)
qed

section \<open>Properties of the poller\<close>

lemma final_progress: "progress (final_state k c) = 100"
  by (simp add: final_state_def split: option.splits)

lemma ramp_step: "min (min (p + 5) 95 + 5 * k) 95 = min (p + 5 * Suc k) (95::nat)"
  by (simp add: min_def)

text \<open>
  A run of fetches that all return a pending operation: one snapshot each, the
  progress five higher every time up to 95, and the loop goes on with the rest.
\<close>

lemma poll_loop_pending:
  "\<not> op_done cur \<Longrightarrow> \<forall>x\<in>set ops. \<not> op_done x \<Longrightarrow> p \<le> 95 \<Longrightarrow>
   poll_loop cur p (map Fetched ops @ tail) =
     (let (ys, ex, rest) = poll_loop (last (cur # ops)) (min (p + 5 * length ops) 95) tail
      in (map (\<lambda>k. processing (min (p + 5 * Suc k) 95)) [0..<length ops] @ ys, ex, rest))"
proof (induction ops arbitrary: cur p)
  case Nil
  then show ?case by (simp add: min_absorb1)
next
  case (Cons a ops)
  have u: "[0..<Suc (length ops)] = 0 # map Suc [0..<length ops]"
    by (simp add: upt_conv_Cons map_Suc_upt del: upt_Suc)
  from Cons.prems have a: "\<not> op_done a" "\<forall>x\<in>set ops. \<not> op_done x" "min (p + 5) 95 \<le> (95::nat)"
    by auto
  have "poll_loop cur p (map Fetched (a # ops) @ tail) =
     (let (ys, ex, rest) = poll_loop a (min (p + 5) 95) (map Fetched ops @ tail)
      in (processing (min (p + 5) 95) # ys, ex, rest))"
    using Cons.prems(1) by (simp add: Let_def)
  also have "\<dots> =
     (let (ys, ex, rest) =
            poll_loop (last (a # ops)) (min (min (p + 5) 95 + 5 * length ops) 95) tail
      in (processing (min (p + 5) 95)
          # map (\<lambda>k. processing (min (min (p + 5) 95 + 5 * Suc k) 95)) [0..<length ops] @ ys,
          ex, rest))"
    unfolding Cons.IH[OF a] by (simp add: Let_def split: prod.splits)
  also have "\<dots> =
     (let (ys, ex, rest) =
            poll_loop (last (cur # a # ops)) (min (p + 5 * length (a # ops)) 95) tail
      in (map (\<lambda>k. processing (min (p + 5 * Suc k) 95)) [0..<length (a # ops)] @ ys, ex, rest))"
    unfolding ramp_step length_Cons u by (simp add: comp_def del: upt_Suc)
  finally show ?case .
qed

lemma poll_loop_inv:
  "poll_loop cur p rs = (ys, ex, rest) \<Longrightarrow> p \<le> 95 \<Longrightarrow>
     sorted (map progress ys) \<and> (\<forall>y\<in>set ys. p \<le> progress y) \<and>
     (ex = Returned \<longrightarrow>
        ys \<noteq> [] \<and> progress (last ys) = 100 \<and> (\<forall>y\<in>set (butlast ys). progress y \<le> 95)) \<and>
     (ex \<noteq> Returned \<longrightarrow> (\<forall>y\<in>set ys. progress y \<le> 95))"
proof (induction cur p rs arbitrary: ys ex rest rule: poll_loop.induct)
  case (1 cur p)
  then show ?case by (auto split: if_splits)
next
  case (2 cur p r rs)
  show ?case
  proof (cases "op_done cur")
    case True
    with 2 show ?thesis by auto
  next
    case False
    show ?thesis
    proof (cases r)
      case (FetchFailed m)
      with False 2 show ?thesis by auto
    next
      case (Fetched x')
      obtain ys' ex' rest' where r: "poll_loop x' (min (p + 5) 95) rs = (ys', ex', rest')"
        by (cases "poll_loop x' (min (p + 5) 95) rs") auto
      have ih: "sorted (map progress ys') \<and> (\<forall>y\<in>set ys'. min (p + 5) 95 \<le> progress y) \<and>
        (ex' = Returned \<longrightarrow>
           ys' \<noteq> [] \<and> progress (last ys') = 100 \<and> (\<forall>y\<in>set (butlast ys'). progress y \<le> 95)) \<and>
        (ex' \<noteq> Returned \<longrightarrow> (\<forall>y\<in>set ys'. progress y \<le> 95))"
        using "2.IH"[OF False Fetched refl r] by simp
      from "2.prems" False Fetched r
      have e: "ys = processing (min (p + 5) 95) # ys'" "ex = ex'" by auto
      show ?thesis
        using ih "2.prems"(2) unfolding e by (auto simp: processing_def min_def split: if_splits)
    qed
  qed
qed

lemma poller_pending_run:
  assumes "\<not> op_done operation" "\<forall>x\<in>set ops. \<not> op_done x"
  shows "pollVeoOperation key operation (map Fetched ops) =
     \<lparr>emitted = map (\<lambda>k. \<lparr>progress = min (10 + 5 * k) 95,
                            message = (if k = 0 then ''Operation started. Waiting for completion...''
                                       else ''Processing video...''),
                            videoUrl = None, error = None\<rparr>) [0..<Suc (length ops)],
      finished = False, unread = []\<rparr>"
proof -
  have l: "\<not> op_done (last (operation # ops))"
    using assms by (cases ops rule: rev_cases) auto
  have u: "[0..<Suc (length ops)] = 0 # map Suc [0..<length ops]"
    by (simp add: upt_conv_Cons map_Suc_upt del: upt_Suc)
  show ?thesis
    using poll_loop_pending[OF assms, of 10 "[]"] l
    unfolding pollVeoOperation_def u
    by (simp add: Let_def processing_def comp_def del: upt_Suc)
qed

lemma poller_invariant:
  "emitted (pollVeoOperation key operation rs) \<noteq> [] \<and>
   progress (hd (emitted (pollVeoOperation key operation rs))) = 10 \<and>
   sorted (map progress (emitted (pollVeoOperation key operation rs))) \<and>
   (if finished (pollVeoOperation key operation rs)
    then progress (last (emitted (pollVeoOperation key operation rs))) = 100 \<and>
         (\<forall>s\<in>set (butlast (emitted (pollVeoOperation key operation rs))). progress s \<le> 95)
    else \<forall>s\<in>set (emitted (pollVeoOperation key operation rs)). progress s \<le> 95)"
proof -
  obtain ys ex rest where r: "poll_loop operation 10 rs = (ys, ex, rest)"
    by (cases "poll_loop operation 10 rs") auto
  from poll_loop_inv[OF r] have inv: "sorted (map progress ys)" "\<forall>y\<in>set ys. 10 \<le> progress y"
    "ex = Returned \<longrightarrow>
        ys \<noteq> [] \<and> progress (last ys) = 100 \<and> (\<forall>y\<in>set (butlast ys). progress y \<le> 95)"
    "ex \<noteq> Returned \<longrightarrow> (\<forall>y\<in>set ys. progress y \<le> 95)" by auto
  show ?thesis
  proof (cases ex)
    case (Exited cur)
    with inv r show ?thesis
      by (auto simp: pollVeoOperation_def final_progress sorted_append butlast_append)
  next
    case Returned
    with inv r show ?thesis
      by (auto simp: pollVeoOperation_def)
  next
    case Suspended
    with inv r show ?thesis
      by (auto simp: pollVeoOperation_def)
  qed
qed

text \<open>
  Claim C3. While the initial operation and every fetched operation are pending,
  the progress values emitted are 10 on entry and then five more per poll, capped
  at 95, and the generator has not finished. On every script the first value is
  10, the values never decrease, a finished run ends with the value 100 and has
  no other value above 95, and an unfinished run has no value above 95.
\<close>

theorem poller_progress:
  "(\<not> op_done operation \<and> (\<forall>x\<in>set ops. \<not> op_done x) \<longrightarrow>
      map progress (emitted (pollVeoOperation key operation (map Fetched ops)))
        = map (\<lambda>k. min (10 + 5 * k) 95) [0..<Suc (length ops)]
      \<and> \<not> finished (pollVeoOperation key operation (map Fetched ops)))
   \<and> progress (hd (emitted (pollVeoOperation key operation rs))) = 10
   \<and> sorted (map progress (emitted (pollVeoOperation key operation rs)))
   \<and> (if finished (pollVeoOperation key operation rs)
       then progress (last (emitted (pollVeoOperation key operation rs))) = 100 \<and>
            (\<forall>s\<in>set (butlast (emitted (pollVeoOperation key operation rs))). progress s \<le> 95)
       else \<forall>s\<in>set (emitted (pollVeoOperation key operation rs)). progress s \<le> 95)"
proof -
  have "map progress (emitted (pollVeoOperation key operation (map Fetched ops)))
        = map (\<lambda>k. min (10 + 5 * k) 95) [0..<Suc (length ops)]
      \<and> \<not> finished (pollVeoOperation key operation (map Fetched ops))"
    if "\<not> op_done operation" "\<forall>x\<in>set ops. \<not> op_done x"
    unfolding poller_pending_run[OF that] by (simp add: comp_def del: upt_Suc)
  then show ?thesis using poller_invariant[of key operation rs] by blast
qed

theorem poller_progress_witness:
  "map progress (emitted (pollVeoOperation ''k'' pending (map Fetched [pending, pending])))
     = [10, 15, 20]
   \<and> \<not> finished (pollVeoOperation ''k'' pending (map Fetched [pending, pending]))
   \<and> progress (last (emitted (pollVeoOperation ''k'' pending
        [Fetched \<lparr>op_done = True, op_uri = Some ''u''\<rparr>]))) = 100"
proof -
  have p: "\<not> op_done pending \<and> (\<forall>x\<in>set [pending, pending]. \<not> op_done x)"
    by (simp add: pending_def)
  have f: "finished (pollVeoOperation ''k'' pending [Fetched \<lparr>op_done = True, op_uri = Some ''u''\<rparr>])"
    by (simp add: pollVeoOperation_def pending_def)
  show ?thesis
    using poller_progress[of pending "[pending, pending]" "''k''"
        "[Fetched \<lparr>op_done = True, op_uri = Some ''u''\<rparr>]"] p f
    by (simp add: upt_rec)
qed

text \<open>
  Claim C4. When the fetches before it all returned a pending operation, a failing
  fetch adds exactly one snapshot to what was emitted so far, with progress 100
  and the error message of the failure; the generator has then finished, and the
  rest of the script is left unread: there is no further fetch and no snapshot
  after the terminal one.
\<close>

theorem poller_fetch_error_terminal:
  assumes "\<not> op_done operation" "\<forall>x\<in>set ops. \<not> op_done x"
  shows "pollVeoOperation key operation (map Fetched ops @ FetchFailed msg # rest) =
     \<lparr>emitted = emitted (pollVeoOperation key operation (map Fetched ops))
                 @ [\<lparr>progress = 100, message = ''Polling failed.'',
                     videoUrl = None, error = Some msg\<rparr>],
      finished = True, unread = rest\<rparr>"
proof -
  have l: "\<not> op_done (last (operation # ops))"
    using assms by (cases ops rule: rev_cases) auto
  show ?thesis
    using poll_loop_pending[OF assms, of 10 "[]"]
      poll_loop_pending[OF assms, of 10 "FetchFailed msg # rest"] l
    unfolding pollVeoOperation_def
    by (simp add: Let_def del: upt_Suc)
qed

theorem poller_fetch_error_terminal_witness:
  "pollVeoOperation ''k'' pending (map Fetched [pending] @ FetchFailed ''down'' # [Fetched pending]) =
     \<lparr>emitted = [\<lparr>progress = 10, message = ''Operation started. Waiting for completion...'',
                   videoUrl = None, error = None\<rparr>,
                 \<lparr>progress = 15, message = ''Processing video...'',
                   videoUrl = None, error = None\<rparr>,
                 \<lparr>progress = 100, message = ''Polling failed.'',
                   videoUrl = None, error = Some ''down''\<rparr>],
      finished = True, unread = [Fetched pending]\<rparr>"
proof -
  have p: "\<not> op_done pending" "\<forall>x\<in>set [pending]. \<not> op_done x"
    by (simp_all add: pending_def)
  have e: "emitted (pollVeoOperation ''k'' pending (map Fetched [pending])) =
     [\<lparr>progress = 10, message = ''Operation started. Waiting for completion...'',
       videoUrl = None, error = None\<rparr>,
      \<lparr>progress = 15, message = ''Processing video...'', videoUrl = None, error = None\<rparr>]"
    by (simp add: pollVeoOperation_def pending_def processing_def)
  show ?thesis
    using poller_fetch_error_terminal[OF p, of "''k''" "''down''" "[Fetched pending]"]
    unfolding e by simp
qed

section \<open>Properties of the capture conversion\<close>

lemma sint_to_int16: "sint (to_int16 x) = wrap_int16 (js_trunc x)"
  by (simp add: to_int16_def wrap_int16_def int_word_sint)

lemma word_cat_bytes: "word_cat (ucast (drop_bit 8 w) :: byte) (ucast w :: byte) = (w :: int16)"
  by (rule bit_word_eqI) (auto simp: bit_word_cat_iff bit_ucast_iff bit_drop_bit_eq)

lemma int16_view_bytes16: "int16_view (concat (map (\<lambda>w. bytes16 w True) ws)) = ws"
  by (induction ws) (simp_all add: bytes16_def word_cat_bytes)

lemma length_bytes16_concat: "length (concat (map (\<lambda>w. bytes16 w True) ws)) = 2 * length ws"
  by (induction ws) (simp_all add: bytes16_def)

lemma onaudioprocess_frame:
  "decode (pcm_data (onaudioprocess inputData))
     = Inr (concat (map (\<lambda>x. bytes16 (to_int16 (x * 32768)) True) inputData))"
proof -
  have "decode (encode bytes) = Inr bytes" for bytes
    unfolding decode_binary encode_binary atob_btoa by (simp add: bind_err_def byte_of_char_of del: map_map)
  then show ?thesis
    by (simp add: onaudioprocess_def Let_def float_to_int16_def comp_def)
qed

lemma frame_samples_onaudioprocess:
  "frame_samples (onaudioprocess inputData) = map (\<lambda>x. sint (to_int16 (x * 32768))) inputData"
proof -
  define ws where "ws = map (\<lambda>x. to_int16 (x * 32768)) inputData"
  have e: "concat (map (\<lambda>x. bytes16 (to_int16 (x * 32768)) True) inputData)
      = concat (map (\<lambda>w. bytes16 w True) ws)"
    by (simp add: ws_def comp_def)
  have "frame_samples (onaudioprocess inputData) = map sint ws"
    unfolding frame_samples_def onaudioprocess_frame e
    by (simp add: bind_err_def new_Int16Array_def int16_view_bytes16 length_bytes16_concat)
  then show ?thesis by (simp add: ws_def comp_def)
qed

text \<open>
  Claim C10. The capture handler stores each sample times 32768 without clamping:
  the 16-bit samples carried by the media frame it builds, read as signed
  numbers, are the truncated products reduced modulo \<open>2 ^ 16\<close> in two's
  complement, in the order of the input block. A full-scale sample of exactly 1
  is sent as -32768, not as 32767.
\<close>

theorem capture_conversion_wraps:
  "frame_samples (onaudioprocess xs) = map (\<lambda>x. wrap_int16 (js_trunc (x * 32768))) xs
   \<and> decode (pcm_data (onaudioprocess xs))
       = Inr (concat (map (\<lambda>x. bytes16 (to_int16 (x * 32768)) True) xs))
   \<and> pcm_mimeType (onaudioprocess xs) = ''audio/pcm;rate=16000''
   \<and> frame_samples (onaudioprocess [1]) = [- 32768]
   \<and> frame_samples (onaudioprocess [1]) \<noteq> [32767]
   \<and> map sint (float_to_int16 xs) = map (\<lambda>x. wrap_int16 (js_trunc (x * 32768))) xs
   \<and> map sint (float_to_int16 [1]) = [- 32768]
   \<and> map sint (float_to_int16 [1]) \<noteq> [32767]"
  unfolding frame_samples_onaudioprocess onaudioprocess_frame
  by (simp add: float_to_int16_def sint_to_int16 js_trunc_def wrap_int16_def onaudioprocess_def)

section \<open>Properties of the WAV writer\<close>

lemma write_bytes_front:
  "byteOffset + length bs \<le> length front \<Longrightarrow>
   write_bytes (front @ rest) byteOffset bs =
     Inr ((take byteOffset front @ bs @ drop (byteOffset + length bs) front) @ rest)"
  by (simp add: write_bytes_def)

lemma write_bytes_rest:
  "length front = byteOffset \<Longrightarrow> length bs = length rest \<Longrightarrow>
   write_bytes (front @ rest) byteOffset bs = Inr (front @ bs)"
  by (simp add: write_bytes_def)

lemma writeString_front:
  "offset + length str \<le> length front \<Longrightarrow>
   writeString (front @ rest) offset str =
     Inr ((take offset front @ ascii str @ drop (offset + length str) front) @ rest)"
proof (induction str arbitrary: front offset)
  case Nil
  then show ?case by (simp add: ascii_def)
next
  case (Cons c str)
  let ?b = "word_of_nat (of_char c) :: byte"
  let ?front = "take offset front @ [?b] @ drop (offset + 1) front"
  have len: "length ?front = length front" using Cons.prems by simp
  have 1: "setUint8 (front @ rest) offset (of_char c) = Inr (?front @ rest)"
    unfolding setUint8_def using write_bytes_front[of offset "[?b]" front rest] Cons.prems by simp
  have 2: "writeString (?front @ rest) (Suc offset) str =
     Inr ((take (Suc offset) ?front @ ascii str @ drop (Suc offset + length str) ?front) @ rest)"
    using Cons.IH[of "Suc offset" ?front] Cons.prems len by simp
  have 3: "take (Suc offset) ?front = take offset front @ [?b]"
    using Cons.prems by simp
  have 4: "drop (Suc offset + length str) ?front = drop (offset + length (c # str)) front"
    using Cons.prems by (simp add: add.commute)
  show ?case
    unfolding writeString.simps 1 bind_err_def sum.case 2 3 4 by (simp add: ascii_def)
qed

lemma length_bytes16: "length (bytes16 w e) = 2"
  by (simp add: bytes16_def Let_def)

lemma length_bytes32: "length (bytes32 w e) = 4"
  by (simp add: bytes32_def Let_def)

lemma setUint16_front:
  "byteOffset + 2 \<le> length front \<Longrightarrow>
   setUint16 (front @ rest) byteOffset v e =
     Inr ((take byteOffset front @ bytes16 (to_uint16 v) e @ drop (byteOffset + 2) front) @ rest)"
  unfolding setUint16_def using write_bytes_front[of byteOffset "bytes16 (to_uint16 v) e" front rest]
  by (simp add: length_bytes16)

lemma setUint32_front:
  "byteOffset + 4 \<le> length front \<Longrightarrow>
   setUint32 (front @ rest) byteOffset v e =
     Inr ((take byteOffset front @ bytes32 (to_uint32 v) e @ drop (byteOffset + 4) front) @ rest)"
  unfolding setUint32_def using write_bytes_front[of byteOffset "bytes32 (to_uint32 v) e" front rest]
  by (simp add: length_bytes32)

lemma zeros44: "replicate 44 (0::byte) =
  [0,0,0,0, 0,0,0,0, 0,0,0,0, 0,0,0,0, 0,0,0,0, 0,0,0,0, 0,0,0,0, 0,0,0,0, 0,0,0,0, 0,0,0,0, 0,0,0,0]"
  by (simp add: numeral_eq_Suc)


lemma pcmToWav_bytes:
  "pcmToWav pcmData sampleRate numChannels bitsPerSample =
     Inr \<lparr>blob_bytes =
            (ascii ''RIFF'' @ bytes32 (to_uint32 (36 + of_nat (length pcmData))) True
             @ ascii ''WAVE'' @ ascii ''fmt '' @ bytes32 (to_uint32 16) True
             @ bytes16 (to_uint16 1) True @ bytes16 (to_uint16 numChannels) True
             @ bytes32 (to_uint32 sampleRate) True
             @ bytes32 (to_uint32 (sampleRate * numChannels * (bitsPerSample / 8))) True
             @ bytes16 (to_uint16 (numChannels * (bitsPerSample / 8))) True
             @ bytes16 (to_uint16 bitsPerSample) True
             @ ascii ''data'' @ bytes32 (to_uint32 (of_nat (length pcmData))) True)
            @ pcmData,
          blob_type = ''audio/wav''\<rparr>"
proof -
  define rest where "rest = replicate (length pcmData) (0::byte)"
  define dataSize :: rat where "dataSize = of_nat (length pcmData)"
  define chunkSize :: rat where "chunkSize = 36 + dataSize"
  define byteRate where "byteRate = sampleRate * numChannels * (bitsPerSample / 8)"
  define blockAlign where "blockAlign = numChannels * (bitsPerSample / 8)"
  have init: "replicate (44 + length pcmData) (0::byte) = [0, 0, 0, 0, 0, 0, 0, 0, 0, 0, 0, 0, 0, 0, 0, 0, 0, 0, 0, 0, 0, 0, 0, 0, 0, 0, 0, 0, 0, 0, 0, 0, 0, 0, 0, 0, 0, 0, 0, 0, 0, 0, 0, 0] @ rest"
    unfolding zeros44[symmetric] by (simp add: rest_def replicate_add)
  obtain a0 a1 a2 a3 where a: "bytes32 (to_uint32 chunkSize) True = [a0, a1, a2, a3]"
    by (simp add: bytes32_def)
  obtain b0 b1 b2 b3 where b: "bytes32 (to_uint32 16) True = [b0, b1, b2, b3]"
    by (simp add: bytes32_def)
  obtain c0 c1 where c: "bytes16 (to_uint16 1) True = [c0, c1]"
    by (simp add: bytes16_def)
  obtain d0 d1 where d: "bytes16 (to_uint16 numChannels) True = [d0, d1]"
    by (simp add: bytes16_def)
  obtain e0 e1 e2 e3 where e: "bytes32 (to_uint32 sampleRate) True = [e0, e1, e2, e3]"
    by (simp add: bytes32_def)
  obtain f0 f1 f2 f3 where f:
    "bytes32 (to_uint32 byteRate) True = [f0, f1, f2, f3]"
    by (simp add: bytes32_def)
  obtain g0 g1 where g: "bytes16 (to_uint16 blockAlign) True = [g0, g1]"
    by (simp add: bytes16_def)
  obtain h0 h1 where h: "bytes16 (to_uint16 bitsPerSample) True = [h0, h1]"
    by (simp add: bytes16_def)
  obtain i0 i1 i2 i3 where i: "bytes32 (to_uint32 dataSize) True = [i0, i1, i2, i3]"
    by (simp add: bytes32_def)
  have s1: "writeString ([0, 0, 0, 0, 0, 0, 0, 0, 0, 0, 0, 0, 0, 0, 0, 0, 0, 0, 0, 0, 0, 0, 0, 0, 0, 0, 0, 0, 0, 0, 0, 0, 0, 0, 0, 0, 0, 0, 0, 0, 0, 0, 0, 0] @ rest) 0 ''RIFF'' =
      Inr ([82, 73, 70, 70, 0, 0, 0, 0, 0, 0, 0, 0, 0, 0, 0, 0, 0, 0, 0, 0, 0, 0, 0, 0, 0, 0, 0, 0, 0, 0, 0, 0, 0, 0, 0, 0, 0, 0, 0, 0, 0, 0, 0, 0] @ rest)"
    using writeString_front[of 0 "''RIFF''" "[0, 0, 0, 0, 0, 0, 0, 0, 0, 0, 0, 0, 0, 0, 0, 0, 0, 0, 0, 0, 0, 0, 0, 0, 0, 0, 0, 0, 0, 0, 0, 0, 0, 0, 0, 0, 0, 0, 0, 0, 0, 0, 0, 0]" rest] by (simp add: ascii_def)
  have s2: "setUint32 ([82, 73, 70, 70, 0, 0, 0, 0, 0, 0, 0, 0, 0, 0, 0, 0, 0, 0, 0, 0, 0, 0, 0, 0, 0, 0, 0, 0, 0, 0, 0, 0, 0, 0, 0, 0, 0, 0, 0, 0, 0, 0, 0, 0] @ rest) 4 chunkSize True =
      Inr ([82, 73, 70, 70, a0, a1, a2, a3, 0, 0, 0, 0, 0, 0, 0, 0, 0, 0, 0, 0, 0, 0, 0, 0, 0, 0, 0, 0, 0, 0, 0, 0, 0, 0, 0, 0, 0, 0, 0, 0, 0, 0, 0, 0] @ rest)"
    using setUint32_front[of 4 "[82, 73, 70, 70, 0, 0, 0, 0, 0, 0, 0, 0, 0, 0, 0, 0, 0, 0, 0, 0, 0, 0, 0, 0, 0, 0, 0, 0, 0, 0, 0, 0, 0, 0, 0, 0, 0, 0, 0, 0, 0, 0, 0, 0]" rest "chunkSize" True] by (simp add: a)
  have s3: "writeString ([82, 73, 70, 70, a0, a1, a2, a3, 0, 0, 0, 0, 0, 0, 0, 0, 0, 0, 0, 0, 0, 0, 0, 0, 0, 0, 0, 0, 0, 0, 0, 0, 0, 0, 0, 0, 0, 0, 0, 0, 0, 0, 0, 0] @ rest) 8 ''WAVE'' =
      Inr ([82, 73, 70, 70, a0, a1, a2, a3, 87, 65, 86, 69, 0, 0, 0, 0, 0, 0, 0, 0, 0, 0, 0, 0, 0, 0, 0, 0, 0, 0, 0, 0, 0, 0, 0, 0, 0, 0, 0, 0, 0, 0, 0, 0] @ rest)"
    using writeString_front[of 8 "''WAVE''" "[82, 73, 70, 70, a0, a1, a2, a3, 0, 0, 0, 0, 0, 0, 0, 0, 0, 0, 0, 0, 0, 0, 0, 0, 0, 0, 0, 0, 0, 0, 0, 0, 0, 0, 0, 0, 0, 0, 0, 0, 0, 0, 0, 0]" rest] by (simp add: ascii_def)
  have s4: "writeString ([82, 73, 70, 70, a0, a1, a2, a3, 87, 65, 86, 69, 0, 0, 0, 0, 0, 0, 0, 0, 0, 0, 0, 0, 0, 0, 0, 0, 0, 0, 0, 0, 0, 0, 0, 0, 0, 0, 0, 0, 0, 0, 0, 0] @ rest) 12 ''fmt '' =
      Inr ([82, 73, 70, 70, a0, a1, a2, a3, 87, 65, 86, 69, 102, 109, 116, 32, 0, 0, 0, 0, 0, 0, 0, 0, 0, 0, 0, 0, 0, 0, 0, 0, 0, 0, 0, 0, 0, 0, 0, 0, 0, 0, 0, 0] @ rest)"
    using writeString_front[of 12 "''fmt ''" "[82, 73, 70, 70, a0, a1, a2, a3, 87, 65, 86, 69, 0, 0, 0, 0, 0, 0, 0, 0, 0, 0, 0, 0, 0, 0, 0, 0, 0, 0, 0, 0, 0, 0, 0, 0, 0, 0, 0, 0, 0, 0, 0, 0]" rest] by (simp add: ascii_def)
  have s5: "setUint32 ([82, 73, 70, 70, a0, a1, a2, a3, 87, 65, 86, 69, 102, 109, 116, 32, 0, 0, 0, 0, 0, 0, 0, 0, 0, 0, 0, 0, 0, 0, 0, 0, 0, 0, 0, 0, 0, 0, 0, 0, 0, 0, 0, 0] @ rest) 16 16 True =
      Inr ([82, 73, 70, 70, a0, a1, a2, a3, 87, 65, 86, 69, 102, 109, 116, 32, b0, b1, b2, b3, 0, 0, 0, 0, 0, 0, 0, 0, 0, 0, 0, 0, 0, 0, 0, 0, 0, 0, 0, 0, 0, 0, 0, 0] @ rest)"
    using setUint32_front[of 16 "[82, 73, 70, 70, a0, a1, a2, a3, 87, 65, 86, 69, 102, 109, 116, 32, 0, 0, 0, 0, 0, 0, 0, 0, 0, 0, 0, 0, 0, 0, 0, 0, 0, 0, 0, 0, 0, 0, 0, 0, 0, 0, 0, 0]" rest "16" True] by (simp add: b)
  have s6: "setUint16 ([82, 73, 70, 70, a0, a1, a2, a3, 87, 65, 86, 69, 102, 109, 116, 32, b0, b1, b2, b3, 0, 0, 0, 0, 0, 0, 0, 0, 0, 0, 0, 0, 0, 0, 0, 0, 0, 0, 0, 0, 0, 0, 0, 0] @ rest) 20 1 True =
      Inr ([82, 73, 70, 70, a0, a1, a2, a3, 87, 65, 86, 69, 102, 109, 116, 32, b0, b1, b2, b3, c0, c1, 0, 0, 0, 0, 0, 0, 0, 0, 0, 0, 0, 0, 0, 0, 0, 0, 0, 0, 0, 0, 0, 0] @ rest)"
    using setUint16_front[of 20 "[82, 73, 70, 70, a0, a1, a2, a3, 87, 65, 86, 69, 102, 109, 116, 32, b0, b1, b2, b3, 0, 0, 0, 0, 0, 0, 0, 0, 0, 0, 0, 0, 0, 0, 0, 0, 0, 0, 0, 0, 0, 0, 0, 0]" rest "1" True] by (simp add: c)
  have s7: "setUint16 ([82, 73, 70, 70, a0, a1, a2, a3, 87, 65, 86, 69, 102, 109, 116, 32, b0, b1, b2, b3, c0, c1, 0, 0, 0, 0, 0, 0, 0, 0, 0, 0, 0, 0, 0, 0, 0, 0, 0, 0, 0, 0, 0, 0] @ rest) 22 numChannels True =
      Inr ([82, 73, 70, 70, a0, a1, a2, a3, 87, 65, 86, 69, 102, 109, 116, 32, b0, b1, b2, b3, c0, c1, d0, d1, 0, 0, 0, 0, 0, 0, 0, 0, 0, 0, 0, 0, 0, 0, 0, 0, 0, 0, 0, 0] @ rest)"
    using setUint16_front[of 22 "[82, 73, 70, 70, a0, a1, a2, a3, 87, 65, 86, 69, 102, 109, 116, 32, b0, b1, b2, b3, c0, c1, 0, 0, 0, 0, 0, 0, 0, 0, 0, 0, 0, 0, 0, 0, 0, 0, 0, 0, 0, 0, 0, 0]" rest "numChannels" True] by (simp add: d)
  have s8: "setUint32 ([82, 73, 70, 70, a0, a1, a2, a3, 87, 65, 86, 69, 102, 109, 116, 32, b0, b1, b2, b3, c0, c1, d0, d1, 0, 0, 0, 0, 0, 0, 0, 0, 0, 0, 0, 0, 0, 0, 0, 0, 0, 0, 0, 0] @ rest) 24 sampleRate True =
      Inr ([82, 73, 70, 70, a0, a1, a2, a3, 87, 65, 86, 69, 102, 109, 116, 32, b0, b1, b2, b3, c0, c1, d0, d1, e0, e1, e2, e3, 0, 0, 0, 0, 0, 0, 0, 0, 0, 0, 0, 0, 0, 0, 0, 0] @ rest)"
    using setUint32_front[of 24 "[82, 73, 70, 70, a0, a1, a2, a3, 87, 65, 86, 69, 102, 109, 116, 32, b0, b1, b2, b3, c0, c1, d0, d1, 0, 0, 0, 0, 0, 0, 0, 0, 0, 0, 0, 0, 0, 0, 0, 0, 0, 0, 0, 0]" rest "sampleRate" True] by (simp add: e)
  have s9: "setUint32 ([82, 73, 70, 70, a0, a1, a2, a3, 87, 65, 86, 69, 102, 109, 116, 32, b0, b1, b2, b3, c0, c1, d0, d1, e0, e1, e2, e3, 0, 0, 0, 0, 0, 0, 0, 0, 0, 0, 0, 0, 0, 0, 0, 0] @ rest) 28 byteRate True =
      Inr ([82, 73, 70, 70, a0, a1, a2, a3, 87, 65, 86, 69, 102, 109, 116, 32, b0, b1, b2, b3, c0, c1, d0, d1, e0, e1, e2, e3, f0, f1, f2, f3, 0, 0, 0, 0, 0, 0, 0, 0, 0, 0, 0, 0] @ rest)"
    using setUint32_front[of 28 "[82, 73, 70, 70, a0, a1, a2, a3, 87, 65, 86, 69, 102, 109, 116, 32, b0, b1, b2, b3, c0, c1, d0, d1, e0, e1, e2, e3, 0, 0, 0, 0, 0, 0, 0, 0, 0, 0, 0, 0, 0, 0, 0, 0]" rest "byteRate" True] by (simp add: f)
  have s10: "setUint16 ([82, 73, 70, 70, a0, a1, a2, a3, 87, 65, 86, 69, 102, 109, 116, 32, b0, b1, b2, b3, c0, c1, d0, d1, e0, e1, e2, e3, f0, f1, f2, f3, 0, 0, 0, 0, 0, 0, 0, 0, 0, 0, 0, 0] @ rest) 32 blockAlign True =
      Inr ([82, 73, 70, 70, a0, a1, a2, a3, 87, 65, 86, 69, 102, 109, 116, 32, b0, b1, b2, b3, c0, c1, d0, d1, e0, e1, e2, e3, f0, f1, f2, f3, g0, g1, 0, 0, 0, 0, 0, 0, 0, 0, 0, 0] @ rest)"
    using setUint16_front[of 32 "[82, 73, 70, 70, a0, a1, a2, a3, 87, 65, 86, 69, 102, 109, 116, 32, b0, b1, b2, b3, c0, c1, d0, d1, e0, e1, e2, e3, f0, f1, f2, f3, 0, 0, 0, 0, 0, 0, 0, 0, 0, 0, 0, 0]" rest "blockAlign" True] by (simp add: g)
  have s11: "setUint16 ([82, 73, 70, 70, a0, a1, a2, a3, 87, 65, 86, 69, 102, 109, 116, 32, b0, b1, b2, b3, c0, c1, d0, d1, e0, e1, e2, e3, f0, f1, f2, f3, g0, g1, 0, 0, 0, 0, 0, 0, 0, 0, 0, 0] @ rest) 34 bitsPerSample True =
      Inr ([82, 73, 70, 70, a0, a1, a2, a3, 87, 65, 86, 69, 102, 109, 116, 32, b0, b1, b2, b3, c0, c1, d0, d1, e0, e1, e2, e3, f0, f1, f2, f3, g0, g1, h0, h1, 0, 0, 0, 0, 0, 0, 0, 0] @ rest)"
    using setUint16_front[of 34 "[82, 73, 70, 70, a0, a1, a2, a3, 87, 65, 86, 69, 102, 109, 116, 32, b0, b1, b2, b3, c0, c1, d0, d1, e0, e1, e2, e3, f0, f1, f2, f3, g0, g1, 0, 0, 0, 0, 0, 0, 0, 0, 0, 0]" rest "bitsPerSample" True] by (simp add: h)
  have s12: "writeString ([82, 73, 70, 70, a0, a1, a2, a3, 87, 65, 86, 69, 102, 109, 116, 32, b0, b1, b2, b3, c0, c1, d0, d1, e0, e1, e2, e3, f0, f1, f2, f3, g0, g1, h0, h1, 0, 0, 0, 0, 0, 0, 0, 0] @ rest) 36 ''data'' =
      Inr ([82, 73, 70, 70, a0, a1, a2, a3, 87, 65, 86, 69, 102, 109, 116, 32, b0, b1, b2, b3, c0, c1, d0, d1, e0, e1, e2, e3, f0, f1, f2, f3, g0, g1, h0, h1, 100, 97, 116, 97, 0, 0, 0, 0] @ rest)"
    using writeString_front[of 36 "''data''" "[82, 73, 70, 70, a0, a1, a2, a3, 87, 65, 86, 69, 102, 109, 116, 32, b0, b1, b2, b3, c0, c1, d0, d1, e0, e1, e2, e3, f0, f1, f2, f3, g0, g1, h0, h1, 0, 0, 0, 0, 0, 0, 0, 0]" rest] by (simp add: ascii_def)
  have s13: "setUint32 ([82, 73, 70, 70, a0, a1, a2, a3, 87, 65, 86, 69, 102, 109, 116, 32, b0, b1, b2, b3, c0, c1, d0, d1, e0, e1, e2, e3, f0, f1, f2, f3, g0, g1, h0, h1, 100, 97, 116, 97, 0, 0, 0, 0] @ rest) 40 dataSize True =
      Inr ([82, 73, 70, 70, a0, a1, a2, a3, 87, 65, 86, 69, 102, 109, 116, 32, b0, b1, b2, b3, c0, c1, d0, d1, e0, e1, e2, e3, f0, f1, f2, f3, g0, g1, h0, h1, 100, 97, 116, 97, i0, i1, i2, i3] @ rest)"
    using setUint32_front[of 40 "[82, 73, 70, 70, a0, a1, a2, a3, 87, 65, 86, 69, 102, 109, 116, 32, b0, b1, b2, b3, c0, c1, d0, d1, e0, e1, e2, e3, f0, f1, f2, f3, g0, g1, h0, h1, 100, 97, 116, 97, 0, 0, 0, 0]" rest "dataSize" True] by (simp add: i)
  have s14: "write_bytes ([82, 73, 70, 70, a0, a1, a2, a3, 87, 65, 86, 69, 102, 109, 116, 32, b0, b1, b2, b3, c0, c1, d0, d1, e0, e1, e2, e3, f0, f1, f2, f3, g0, g1, h0, h1, 100, 97, 116, 97, i0, i1, i2, i3] @ rest) 44 pcmData =
      Inr ([82, 73, 70, 70, a0, a1, a2, a3, 87, 65, 86, 69, 102, 109, 116, 32, b0, b1, b2, b3, c0, c1, d0, d1, e0, e1, e2, e3, f0, f1, f2, f3, g0, g1, h0, h1, 100, 97, 116, 97, i0, i1, i2, i3] @ pcmData)"
    using write_bytes_rest[of "[82, 73, 70, 70, a0, a1, a2, a3, 87, 65, 86, 69, 102, 109, 116, 32, b0, b1, b2, b3, c0, c1, d0, d1, e0, e1, e2, e3, f0, f1, f2, f3, g0, g1, h0, h1, 100, 97, 116, 97, i0, i1, i2, i3]" 44 pcmData rest] by (simp add: rest_def)
  have run: "pcmToWav pcmData sampleRate numChannels bitsPerSample =
      Inr \<lparr>blob_bytes = [82, 73, 70, 70, a0, a1, a2, a3, 87, 65, 86, 69, 102, 109, 116, 32, b0, b1, b2, b3, c0, c1, d0, d1, e0, e1, e2, e3, f0, f1, f2, f3, g0, g1, h0, h1, 100, 97, 116, 97, i0, i1, i2, i3] @ pcmData, blob_type = ''audio/wav''\<rparr>"
    unfolding pcmToWav_def Let_def init
      byteRate_def[symmetric] blockAlign_def[symmetric] dataSize_def[symmetric]
    unfolding chunkSize_def[symmetric]
    by (simp only: bind_err_def sum.case s1 s2 s3 s4 s5 s6 s7 s8 s9 s10 s11 s12 s13 s14)
  have hdr: "ascii ''RIFF'' @ bytes32 (to_uint32 chunkSize) True
             @ ascii ''WAVE'' @ ascii ''fmt '' @ bytes32 (to_uint32 16) True
             @ bytes16 (to_uint16 1) True @ bytes16 (to_uint16 numChannels) True
             @ bytes32 (to_uint32 sampleRate) True
             @ bytes32 (to_uint32 byteRate) True
             @ bytes16 (to_uint16 blockAlign) True
             @ bytes16 (to_uint16 bitsPerSample) True
             @ ascii ''data'' @ bytes32 (to_uint32 dataSize) True
      = [82, 73, 70, 70, a0, a1, a2, a3, 87, 65, 86, 69, 102, 109, 116,
         32, b0, b1, b2, b3, c0, c1, d0, d1, e0, e1, e2, e3, f0, f1, f2,
         f3, g0, g1, h0, h1, 100, 97, 116, 97, i0, i1, i2, i3]"
    by (simp add: ascii_def a b c d e f g h i)
  show ?thesis
    unfolding run hdr[symmetric]
    unfolding byteRate_def blockAlign_def chunkSize_def
    unfolding dataSize_def
    by (rule refl)
qed

lemma le_digits32:
  fixes x :: nat
  shows "x mod 256 + (256 * (x div 256 mod 256) + (65536 * (x div 65536 mod 256)
           + 16777216 * (x div 16777216))) = x"
proof -
  define y z u where "y = x div 256" and "z = y div 256" and "u = z div 256"
  have d: "x div 65536 = z" "x div 16777216 = u"
    by (simp_all add: y_def z_def u_def div_mult2_eq)
  have "x = x mod 256 + 256 * y" "y = y mod 256 + 256 * z" "z = z mod 256 + 256 * u"
    by (simp_all add: y_def z_def u_def)
  then show ?thesis unfolding d y_def[symmetric] by linarith
qed

lemma le_digits16:
  fixes x :: nat
  shows "x mod 256 + 256 * (x div 256) = x"
  by simp

lemma uint_le_bytes32: "uint_le (bytes32 w True) = unat w"
proof -
  have b: "unat w < 4294967296" using unsigned_less[of w] by simp
  then have t: "unat w div 16777216 mod 256 = unat w div 16777216"
    by (simp add: less_mult_imp_div_less)
  have "unat (ucast w :: byte) = unat w mod 256"
    "unat (ucast (drop_bit 8 w) :: byte) = unat w div 256 mod 256"
    "unat (ucast (drop_bit 16 w) :: byte) = unat w div 65536 mod 256"
    "unat (ucast (drop_bit 24 w) :: byte) = unat w div 16777216"
    by (simp_all add: unsigned_ucast_eq unsigned_drop_bit_eq take_bit_eq_mod drop_bit_eq_div
        unsigned_take_bit_eq unat_div t)
  then show ?thesis
    by (simp add: uint_le_def bytes32_def le_digits32)
qed

lemma uint_le_bytes16: "uint_le (bytes16 w True) = unat w"
proof -
  have b: "unat w < 65536" using unsigned_less[of w] by simp
  then have t: "unat w div 256 mod 256 = unat w div 256"
    by (simp add: less_mult_imp_div_less)
  have "unat (ucast w :: byte) = unat w mod 256"
    "unat (ucast (drop_bit 8 w) :: byte) = unat w div 256"
    by (simp_all add: unsigned_ucast_eq unsigned_drop_bit_eq take_bit_eq_mod drop_bit_eq_div
        unsigned_take_bit_eq unat_div t)
  then show ?thesis
    by (simp add: uint_le_def bytes16_def)
qed

lemma unat_to_uint32_nat: "unat (to_uint32 (of_nat n)) = n mod 2 ^ 32"
proof -
  have "js_trunc (of_nat n) = int n" by (simp add: js_trunc_def)
  then show ?thesis by (simp add: to_uint32_def unat_of_nat take_bit_eq_mod)
qed

lemma unat_to_uint16_one: "unat (to_uint16 1) = 1"
  by (simp add: to_uint16_def js_trunc_def)

lemma wav_fields:
  fixes pcmData :: "byte list" and sampleRate numChannels bitsPerSample :: rat
  defines "W \<equiv> wav_bytes (pcmToWav pcmData sampleRate numChannels bitsPerSample)"
  shows "\<not> isl (pcmToWav pcmData sampleRate numChannels bitsPerSample)"
    and "length W = 44 + length pcmData"
    and "field 0 4 W = ascii ''RIFF''"
    and "field 4 4 W = bytes32 (to_uint32 (36 + of_nat (length pcmData))) True"
    and "field 8 4 W = ascii ''WAVE''"
    and "field 12 4 W = ascii ''fmt ''"
    and "field 16 4 W = bytes32 (to_uint32 16) True"
    and "field 20 2 W = bytes16 (to_uint16 1) True"
    and "field 22 2 W = bytes16 (to_uint16 numChannels) True"
    and "field 24 4 W = bytes32 (to_uint32 sampleRate) True"
    and "field 28 4 W = bytes32 (to_uint32 (sampleRate * numChannels * (bitsPerSample / 8))) True"
    and "field 32 2 W = bytes16 (to_uint16 (numChannels * (bitsPerSample / 8))) True"
    and "field 34 2 W = bytes16 (to_uint16 bitsPerSample) True"
    and "field 36 4 W = ascii ''data''"
    and "field 40 4 W = bytes32 (to_uint32 (of_nat (length pcmData))) True"
    and "drop 44 W = pcmData"
proof -
  obtain a0 a1 a2 a3 where a: "bytes32 (to_uint32 (36 + of_nat (length pcmData))) True = [a0, a1, a2, a3]"
    by (simp add: bytes32_def)
  obtain b0 b1 b2 b3 where b: "bytes32 (to_uint32 16) True = [b0, b1, b2, b3]"
    by (simp add: bytes32_def)
  obtain c0 c1 where c: "bytes16 (to_uint16 1) True = [c0, c1]"
    by (simp add: bytes16_def)
  obtain d0 d1 where d: "bytes16 (to_uint16 numChannels) True = [d0, d1]"
    by (simp add: bytes16_def)
  obtain e0 e1 e2 e3 where e: "bytes32 (to_uint32 sampleRate) True = [e0, e1, e2, e3]"
    by (simp add: bytes32_def)
  obtain f0 f1 f2 f3 where f:
    "bytes32 (to_uint32 (sampleRate * numChannels * (bitsPerSample / 8))) True = [f0, f1, f2, f3]"
    by (simp add: bytes32_def)
  obtain g0 g1 where g: "bytes16 (to_uint16 (numChannels * (bitsPerSample / 8))) True = [g0, g1]"
    by (simp add: bytes16_def)
  obtain h0 h1 where h: "bytes16 (to_uint16 bitsPerSample) True = [h0, h1]"
    by (simp add: bytes16_def)
  obtain i0 i1 i2 i3 where i: "bytes32 (to_uint32 (of_nat (length pcmData))) True = [i0, i1, i2, i3]"
    by (simp add: bytes32_def)
  have W: "W = [82, 73, 70, 70, a0, a1, a2, a3, 87, 65, 86, 69, 102, 109, 116,
         32, b0, b1, b2, b3, c0, c1, d0, d1, e0, e1, e2, e3, f0, f1, f2,
         f3, g0, g1, h0, h1, 100, 97, 116, 97, i0, i1, i2, i3] @ pcmData"
    unfolding W_def pcmToWav_bytes a b c d e f g h i by (simp add: wav_bytes_def ascii_def)
  show "\<not> isl (pcmToWav pcmData sampleRate numChannels bitsPerSample)"
    unfolding pcmToWav_bytes by simp
  show "length W = 44 + length pcmData" unfolding W by simp
  show "field 0 4 W = ascii ''RIFF''" unfolding W by (simp add: field_def ascii_def)
  show "field 4 4 W = bytes32 (to_uint32 (36 + of_nat (length pcmData))) True"
    unfolding W a by (simp add: field_def)
  show "field 8 4 W = ascii ''WAVE''" unfolding W by (simp add: field_def ascii_def)
  show "field 12 4 W = ascii ''fmt ''" unfolding W by (simp add: field_def ascii_def)
  show "field 16 4 W = bytes32 (to_uint32 16) True" unfolding W b by (simp add: field_def)
  show "field 20 2 W = bytes16 (to_uint16 1) True" unfolding W c by (simp add: field_def)
  show "field 22 2 W = bytes16 (to_uint16 numChannels) True" unfolding W d by (simp add: field_def)
  show "field 24 4 W = bytes32 (to_uint32 sampleRate) True" unfolding W e by (simp add: field_def)
  show "field 28 4 W = bytes32 (to_uint32 (sampleRate * numChannels * (bitsPerSample / 8))) True"
    unfolding W f by (simp add: field_def)
  show "field 32 2 W = bytes16 (to_uint16 (numChannels * (bitsPerSample / 8))) True"
    unfolding W g by (simp add: field_def)
  show "field 34 2 W = bytes16 (to_uint16 bitsPerSample) True" unfolding W h by (simp add: field_def)
  show "field 36 4 W = ascii ''data''" unfolding W by (simp add: field_def ascii_def)
  show "field 40 4 W = bytes32 (to_uint32 (of_nat (length pcmData))) True"
    unfolding W i by (simp add: field_def)
  show "drop 44 W = pcmData" unfolding W by simp
qed

lemma wav_size_fields:
  fixes pcmData :: "byte list"
  shows "uint_le (field 4 4 (wav_bytes (pcmToWav pcmData sampleRate numChannels bitsPerSample)))
           = (36 + length pcmData) mod 2 ^ 32"
    and "uint_le (field 40 4 (wav_bytes (pcmToWav pcmData sampleRate numChannels bitsPerSample)))
           = length pcmData mod 2 ^ 32"
proof -
  have "(36 :: rat) + of_nat (length pcmData) = of_nat (36 + length pcmData)" by simp
  then show "uint_le (field 4 4 (wav_bytes (pcmToWav pcmData sampleRate numChannels bitsPerSample)))
           = (36 + length pcmData) mod 2 ^ 32"
    unfolding wav_fields(4) uint_le_bytes32 by (simp only: unat_to_uint32_nat)
  show "uint_le (field 40 4 (wav_bytes (pcmToWav pcmData sampleRate numChannels bitsPerSample)))
           = length pcmData mod 2 ^ 32"
    unfolding wav_fields(15) uint_le_bytes32 by (simp only: unat_to_uint32_nat)
qed

lemma wav_format_fields:
  fixes pcmData :: "byte list" and sampleRate numChannels bitsPerSample :: rat
  defines "W \<equiv> wav_bytes (pcmToWav pcmData sampleRate numChannels bitsPerSample)"
  shows "uint_le (field 16 4 W) = 16 \<and> uint_le (field 20 2 W) = 1
    \<and> uint_le (field 22 2 W) = unat (to_uint16 numChannels)
    \<and> uint_le (field 24 4 W) = unat (to_uint32 sampleRate)
    \<and> uint_le (field 28 4 W) = unat (to_uint32 (sampleRate * numChannels * (bitsPerSample / 8)))
    \<and> uint_le (field 32 2 W) = unat (to_uint16 (numChannels * (bitsPerSample / 8)))
    \<and> uint_le (field 34 2 W) = unat (to_uint16 bitsPerSample)"
proof -
  have "unat (to_uint32 16) = 16" by (simp add: to_uint32_def js_trunc_def)
  then show ?thesis
    unfolding W_def wav_fields(7-13) uint_le_bytes32 uint_le_bytes16
    using unat_to_uint16_one by simp
qed

text \<open>
  Claim C2. For every payload whose length and length plus 36 fit the 32-bit size
  fields of the format, and every sample rate, channel count and bits per sample,
  the writer succeeds with 44 header bytes followed by the payload unchanged.
  The header is the canonical one, every field little-endian: RIFF, the chunk
  size 36 plus the payload length, WAVE, the format subchunk with its size 16, the
  audio format 1, and the channel count, sample rate, byte rate, block alignment
  and bits per sample converted to unsigned fields of their width, then the data
  tag and the payload length. The payloads the writer receives are decoded from
  one string and are far shorter than the bound.
\<close>

theorem pcmToWav_layout:
  fixes pcmData :: "byte list" and sampleRate numChannels bitsPerSample :: rat
  defines "W \<equiv> wav_bytes (pcmToWav pcmData sampleRate numChannels bitsPerSample)"
  assumes "36 + length pcmData < 2 ^ 32"
  shows "\<not> isl (pcmToWav pcmData sampleRate numChannels bitsPerSample)
    \<and> length W = 44 + length pcmData
    \<and> field 0 4 W = ascii ''RIFF''
    \<and> uint_le (field 4 4 W) = 36 + length pcmData
    \<and> field 8 4 W = ascii ''WAVE''
    \<and> field 12 4 W = ascii ''fmt ''
    \<and> uint_le (field 16 4 W) = 16
    \<and> uint_le (field 20 2 W) = 1
    \<and> uint_le (field 22 2 W) = unat (to_uint16 numChannels)
    \<and> uint_le (field 24 4 W) = unat (to_uint32 sampleRate)
    \<and> uint_le (field 28 4 W) = unat (to_uint32 (sampleRate * numChannels * (bitsPerSample / 8)))
    \<and> uint_le (field 32 2 W) = unat (to_uint16 (numChannels * (bitsPerSample / 8)))
    \<and> uint_le (field 34 2 W) = unat (to_uint16 bitsPerSample)
    \<and> field 36 4 W = ascii ''data''
    \<and> uint_le (field 40 4 W) = length pcmData
    \<and> drop 44 W = pcmData"
proof -
  have s: "uint_le (field 4 4 W) = 36 + length pcmData" "uint_le (field 40 4 W) = length pcmData"
    unfolding W_def wav_size_fields using assms(2) by simp_all
  show ?thesis
    using s wav_format_fields[of pcmData sampleRate numChannels bitsPerSample]
      wav_fields(1,2,3,5,6,14,16)[of pcmData sampleRate numChannels bitsPerSample]
    unfolding W_def by simp
qed

theorem pcmToWav_layout_witness:
  "36 + length [1, 2, 3 :: byte] < 2 ^ 32
   \<and> field 0 4 (wav_bytes (pcmToWav [1, 2, 3] 24000 1 16)) = [82, 73, 70, 70]
   \<and> uint_le (field 4 4 (wav_bytes (pcmToWav [1, 2, 3] 24000 1 16))) = 39
   \<and> uint_le (field 16 4 (wav_bytes (pcmToWav [1, 2, 3] 24000 1 16))) = 16
   \<and> uint_le (field 20 2 (wav_bytes (pcmToWav [1, 2, 3] 24000 1 16))) = 1
   \<and> uint_le (field 22 2 (wav_bytes (pcmToWav [1, 2, 3] 24000 1 16))) = 1
   \<and> uint_le (field 24 4 (wav_bytes (pcmToWav [1, 2, 3] 24000 1 16))) = 24000
   \<and> uint_le (field 28 4 (wav_bytes (pcmToWav [1, 2, 3] 24000 1 16))) = 48000
   \<and> uint_le (field 32 2 (wav_bytes (pcmToWav [1, 2, 3] 24000 1 16))) = 2
   \<and> uint_le (field 34 2 (wav_bytes (pcmToWav [1, 2, 3] 24000 1 16))) = 16
   \<and> uint_le (field 40 4 (wav_bytes (pcmToWav [1, 2, 3] 24000 1 16))) = 3
   \<and> drop 44 (wav_bytes (pcmToWav [1, 2, 3] 24000 1 16)) = [1, 2, 3]"
  using pcmToWav_layout[of "[1, 2, 3]" 24000 1 16]
  by (simp add: to_uint16_def to_uint32_def js_trunc_def ascii_def)

section \<open>Properties of PCM decoding\<close>

lemma length_int16_view: "length (int16_view bs) = length bs div 2"
  by (induction bs rule: int16_view.induct) simp_all

lemma fold_store_upt:
  "fold (\<lambda>i xs. if i < length xs then xs[i := g i] else xs) [0..<m] xs
     = map g [0..<min m (length xs)] @ drop m xs"
proof (induction m)
  case 0
  then show ?case by simp
next
  case (Suc m)
  show ?case
  proof (cases "m < length xs")
    case True
    then have "(map g [0..<m] @ drop m xs)[m := g m] = map g [0..<m] @ g m # drop (Suc m) xs"
      by (simp add: list_update_append Cons_nth_drop_Suc[symmetric])
    with Suc True show ?thesis by (simp add: min_absorb1)
  next
    case False
    with Suc show ?thesis by (simp add: min_absorb2)
  qed
qed

lemma fold_slot_upt:
  "m \<le> length xs \<Longrightarrow>
   fold (\<lambda>c xs. xs[c := f c (xs ! c)]) [0..<m] xs = map (\<lambda>c. f c (xs ! c)) [0..<m] @ drop m xs"
proof (induction m)
  case 0
  then show ?case by simp
next
  case (Suc m)
  then have m: "m < length xs" by simp
  have n: "(map (\<lambda>c. f c (xs ! c)) [0..<m] @ drop m xs) ! m = xs ! m"
    using m by (simp add: nth_append)
  have "(map (\<lambda>c. f c (xs ! c)) [0..<m] @ drop m xs)[m := f m (xs ! m)]
          = map (\<lambda>c. f c (xs ! c)) [0..<m] @ f m (xs ! m) # drop (Suc m) xs"
    using m by (simp add: list_update_append Cons_nth_drop_Suc[symmetric])
  with Suc n show ?case by simp
qed

lemma fold_channels:
  "fold (\<lambda>channel buffer. buffer\<lparr>ab_channelData := h channel (ab_channelData buffer)\<rparr>) cs buffer
     = buffer\<lparr>ab_channelData := fold h cs (ab_channelData buffer)\<rparr>"
  by (induction cs arbitrary: buffer) simp_all

lemma frame_count_floor:
  "js_trunc (of_nat s / of_nat n) = int (s div n)"
proof -
  have "\<not> (of_nat s / of_nat n :: rat) < 0" by (simp add: not_less)
  then show ?thesis unfolding js_trunc_def by (simp only: if_False floor_divide_of_nat_eq)
qed

lemma frame_count_ceiling: "s div n \<le> nat \<lceil>(of_nat s / of_nat n :: rat)\<rceil>"
proof -
  have "\<lfloor>(of_nat s / of_nat n :: rat)\<rfloor> \<le> \<lceil>(of_nat s / of_nat n :: rat)\<rceil>"
    by (rule floor_le_ceiling)
  then show ?thesis by (simp add: floor_divide_of_nat_eq le_nat_iff)
qed

lemma decodeAudioData_odd:
  "odd (length data) \<Longrightarrow> decodeAudioData data ctx sampleRate numChannels = Inl RangeError"
  by (simp add: decodeAudioData_def new_Int16Array_def bind_err_def odd_iff_mod_2_eq_one)

lemma decodeAudioData_even:
  fixes data :: "byte list" and numChannels :: nat
  assumes "even (length data)"
  defines "frames \<equiv> length data div 2 div numChannels"
  assumes "1 \<le> numChannels" "numChannels \<le> max_channels ctx"
    and "min_rate ctx \<le> sampleRate" "sampleRate \<le> max_rate ctx"
    and "1 \<le> frames" "frames < 2 ^ 32"
  shows "decodeAudioData data ctx sampleRate numChannels =
     Inr \<lparr>ab_sampleRate = sampleRate, ab_length = frames,
          ab_channelData =
            map (\<lambda>channel.
                   map (\<lambda>i. of_int (sint (int16_view data ! (i * numChannels + channel))) / 32768)
                     [0..<frames])
              [0..<numChannels]\<rparr>"
proof -
  let ?d = "int16_view data"
  let ?fc = "of_nat (length ?d) / of_nat numChannels :: rat"
  have fr: "unat (to_uint32 ?fc) = frames"
    using assms(8) by (simp add: to_uint32_def frame_count_floor length_int16_view frames_def
        unat_of_nat take_bit_eq_mod)
  have cb: "createBuffer ctx numChannels ?fc sampleRate =
      Inr \<lparr>ab_sampleRate = sampleRate, ab_length = frames,
           ab_channelData = replicate numChannels (replicate frames 0)\<rparr>"
    using assms(3-7) by (simp add: createBuffer_def fr Let_def)
  have ce: "frames \<le> nat \<lceil>?fc\<rceil>"
    unfolding frames_def length_int16_view[symmetric] by (rule frame_count_ceiling)
  have fill: "fill_channel ?d numChannels ?fc channel (replicate frames 0) =
      map (\<lambda>i. of_int (sint (?d ! (i * numChannels + channel))) / 32768) [0..<frames]" for channel
    unfolding fill_channel_def fold_store_upt using ce by (simp add: min_absorb2)
  have "fold (\<lambda>channel xs. xs[channel := fill_channel ?d numChannels ?fc channel (xs ! channel)])
          [0..<numChannels] (replicate numChannels (replicate frames 0))
        = map (\<lambda>channel. fill_channel ?d numChannels ?fc channel
                 (replicate numChannels (replicate frames 0) ! channel)) [0..<numChannels]"
    using fold_slot_upt[of numChannels "replicate numChannels (replicate frames 0)"] by simp
  also have "\<dots> = map (\<lambda>channel. map (\<lambda>i. of_int (sint (?d ! (i * numChannels + channel))) / 32768)
                        [0..<frames]) [0..<numChannels]"
    by (rule map_cong[OF refl]) (simp add: fill)
  finally have loops: "fold (\<lambda>channel xs. xs[channel := fill_channel ?d numChannels ?fc channel (xs ! channel)])
          [0..<numChannels] (replicate numChannels (replicate frames 0))
        = map (\<lambda>channel. map (\<lambda>i. of_int (sint (?d ! (i * numChannels + channel))) / 32768)
                        [0..<frames]) [0..<numChannels]" .
  have ni: "new_Int16Array data = Inr ?d"
    using assms(1) by (simp add: new_Int16Array_def)
  show ?thesis
    unfolding decodeAudioData_def ni bind_err_def sum.case Let_def cb
    using fold_channels[of "\<lambda>channel xs. xs[channel := fill_channel ?d numChannels ?fc channel (xs ! channel)]"
        "[0..<numChannels]"
        "\<lparr>ab_sampleRate = sampleRate, ab_length = frames,
          ab_channelData = replicate numChannels (replicate frames 0)\<rparr>"]
    by (simp add: loops)
qed

lemma decodeAudioData_no_frame:
  assumes "even (length data)" "length data div 2 div numChannels = 0"
  shows "decodeAudioData data ctx sampleRate numChannels = Inl NotSupportedError"
proof -
  have fr: "unat (to_uint32 (of_nat (length (int16_view data)) / of_nat numChannels)) = 0"
    using assms(2) by (simp add: to_uint32_def frame_count_floor length_int16_view)
  have ni: "new_Int16Array data = Inr (int16_view data)"
    using assms(1) by (simp add: new_Int16Array_def)
  show ?thesis
    unfolding decodeAudioData_def ni bind_err_def sum.case Let_def
    by (simp add: createBuffer_def fr)
qed

text \<open>
  Claim C9, as amended. Decoding fails with the \<^verbatim>\<open>RangeError\<close> of the 16-bit
  view exactly when the byte length is odd; the channel count plays no part in
  that. For an even length it succeeds with the sample count divided by the
  channel count, rounded down, as frame count, every channel de-interleaved and
  scaled by 32768, provided that count is at least 1 and below \<open>2 ^ 32\<close> and the
  context supports the channel count and the rate; when the count is 0 the buffer
  allocation fails with \<^verbatim>\<open>NotSupportedError\<close>.
\<close>

theorem decodeAudioData_outcome:
  fixes data :: "byte list"
  shows "(odd (length data) \<longrightarrow>
        decodeAudioData data ctx sampleRate numChannels = Inl RangeError)
   \<and> (even (length data) \<and> 1 \<le> numChannels \<and> numChannels \<le> max_channels ctx
        \<and> min_rate ctx \<le> sampleRate \<and> sampleRate \<le> max_rate ctx
        \<and> 1 \<le> length data div 2 div numChannels \<and> length data div 2 div numChannels < 2 ^ 32 \<longrightarrow>
        decodeAudioData data ctx sampleRate numChannels =
          Inr \<lparr>ab_sampleRate = sampleRate, ab_length = length data div 2 div numChannels,
               ab_channelData =
                 map (\<lambda>channel.
                        map (\<lambda>i. of_int (sint (int16_view data ! (i * numChannels + channel))) / 32768)
                          [0..<length data div 2 div numChannels])
                   [0..<numChannels]\<rparr>
        \<and> frames_of (decodeAudioData data ctx sampleRate numChannels)
            = Some (length data div 2 div numChannels))
   \<and> (even (length data) \<and> length data div 2 div numChannels = 0 \<longrightarrow>
        decodeAudioData data ctx sampleRate numChannels = Inl NotSupportedError)"
  using decodeAudioData_odd[of data ctx sampleRate numChannels]
    decodeAudioData_even[of data numChannels ctx sampleRate]
    decodeAudioData_no_frame[of data numChannels ctx sampleRate]
  by (simp add: frames_of_def)

theorem decodeAudioData_outcome_witness:
  "decodeAudioData [1] reference_limits 24000 1 = Inl RangeError
   \<and> frames_of (decodeAudioData (replicate 8 0) reference_limits 24000 1) = Some 4
   \<and> decodeAudioData [] reference_limits 24000 1 = Inl NotSupportedError"
  using decodeAudioData_outcome[of "[1]" reference_limits 24000 1]
    decodeAudioData_outcome[of "replicate 8 0" reference_limits 24000 1]
    decodeAudioData_outcome[of "[]" reference_limits 24000 1]
  by (simp add: reference_limits_def frames_of_def)

text \<open>
  The claim as first stated fails both ways: six bytes for two channels are not a
  multiple of four bytes and decode to one frame, and the empty input is aligned
  and fails.
\<close>

theorem decode_misaligned_succeeds:
  "length (replicate 6 (0 :: byte)) mod (2 * 2) \<noteq> 0
   \<and> frames_of (decodeAudioData (replicate 6 0) reference_limits 24000 2) = Some 1
   \<and> length ([] :: byte list) mod (1 * 2) = 0
   \<and> frames_of (decodeAudioData [] reference_limits 24000 1) = None"
  using decodeAudioData_even[of "replicate 6 0" 2 reference_limits 24000]
    decodeAudioData_no_frame[of "[]" 1 reference_limits 24000]
  by (simp add: reference_limits_def frames_of_def)

section \<open>Properties of the live audio session\<close>

lemma schedule_audio_ok:
  assumes "decode base64Audio = Inr bytes" "decodeAudioData bytes ctx 24000 1 = Inr audioBuffer"
  shows "schedule_audio ctx currentTime base64Audio st =
     (None, st\<lparr>nextStartTime := max (nextStartTime st) currentTime + duration audioBuffer,
               sources := sources st @ [\<lparr>node_id = created st, node_buffer = audioBuffer,
                                         node_start = max (nextStartTime st) currentTime\<rparr>],
               created := Suc (created st)\<rparr>)"
  using assms by (simp add: schedule_audio_def bind_err_def Let_def)

lemma onmessage_frame:
  assumes "msg_audio m = Inr (Some base64Audio)" "base64Audio \<noteq> []"
    and "decode base64Audio = Inr bytes" "decodeAudioData bytes ctx 24000 1 = Inr audioBuffer"
    and "\<not> msg_interrupted m"
  shows "onmessage ctx currentTime m st =
     (None, st\<lparr>nextStartTime := max (nextStartTime st) currentTime + duration audioBuffer,
               sources := sources st @ [\<lparr>node_id = created st, node_buffer = audioBuffer,
                                         node_start = max (nextStartTime st) currentTime\<rparr>],
               created := Suc (created st),
               forwarded := forwarded st @ [m]\<rparr>)"
  using assms by (simp add: onmessage_def schedule_audio_ok[OF assms(3,4)] Let_def)

lemma schedule_audio_fails:
  assumes "bind_err (decode base64Audio) (\<lambda>bytes. decodeAudioData bytes ctx 24000 1) = Inl e"
  shows "schedule_audio ctx currentTime base64Audio st =
     (Some e, st\<lparr>nextStartTime := max (nextStartTime st) currentTime\<rparr>)"
  using assms by (simp add: schedule_audio_def Let_def)

lemma onmessage_bad_audio:
  assumes "msg_audio m = Inr (Some base64Audio)" "base64Audio \<noteq> []"
    and "bind_err (decode base64Audio) (\<lambda>bytes. decodeAudioData bytes ctx 24000 1) = Inl e"
  shows "onmessage ctx currentTime m st =
     (Some e, st\<lparr>nextStartTime := max (nextStartTime st) currentTime,
                 forwarded := forwarded st @ [m]\<rparr>)"
  using assms by (simp add: onmessage_def schedule_audio_fails[OF assms(3)] Let_def)

lemma onmessage_no_parts:
  assumes "msg_audio m = Inl e"
  shows "onmessage ctx currentTime m st = (Some e, st\<lparr>forwarded := forwarded st @ [m]\<rparr>)"
  using assms by (simp add: onmessage_def Let_def)

lemma onmessage_completes:
  "(fst (onmessage ctx now m st) = None) =
     (case msg_audio m of
        Inl e \<Rightarrow> False
      | Inr None \<Rightarrow> True
      | Inr (Some a) \<Rightarrow>
          a = [] \<or> \<not> isl (bind_err (decode a) (\<lambda>bytes. decodeAudioData bytes ctx 24000 1)))"
  by (auto simp: onmessage_def schedule_audio_def Let_def
      split: sum.splits option.splits prod.splits)

lemma fold_stop_source:
  "sources (fold stop_source xs st) = filter (\<lambda>s. node_id s \<notin> node_id ` set xs) (sources st)
   \<and> stopped (fold stop_source xs st) = stopped st @ map node_id xs
   \<and> nextStartTime (fold stop_source xs st) = nextStartTime st
   \<and> created (fold stop_source xs st) = created st
   \<and> forwarded (fold stop_source xs st) = forwarded st"
proof (induction xs arbitrary: st)
  case Nil
  then show ?case by simp
next
  case (Cons x xs)
  have f: "sources (stop_source x st) = filter (\<lambda>s. node_id s \<noteq> node_id x) (sources st)"
    "stopped (stop_source x st) = stopped st @ [node_id x]"
    "nextStartTime (stop_source x st) = nextStartTime st"
    "created (stop_source x st) = created st"
    "forwarded (stop_source x st) = forwarded st"
    by (simp_all add: stop_source_def)
  show ?case
    using Cons.IH[of "stop_source x st"]
    by (auto simp: f intro: filter_cong)
qed

lemma interrupt_result:
  "interrupt st = st\<lparr>nextStartTime := 0, sources := [],
                     stopped := stopped st @ map node_id (sources st)\<rparr>"
proof -
  have "filter (\<lambda>s. node_id s \<notin> node_id ` set (sources st)) (sources st) = []"
    by (simp add: filter_empty_conv)
  then show ?thesis
    using fold_stop_source[of "sources st" st]
    by (simp add: interrupt_def)
qed

lemma decode_silent_frame: "decode ''AAA='' = Inr [0, 0]"
  by (simp add: decode_def atob_def b64chars_def bind_err_def strip_padding_def
      is_ascii_whitespace_def)

lemma decodeAudioData_silence: "decodeAudioData [0, 0] reference_limits 24000 1 = Inr silence"
  using decodeAudioData_even[of "[0, 0]" 1 reference_limits 24000]
  by (simp add: reference_limits_def silence_def)

text \<open>
  Claim C5. An inbound frame that decodes is scheduled to start at the larger of
  \<^verbatim>\<open>nextStartTime\<close> and the clock, and \<^verbatim>\<open>nextStartTime\<close> becomes that start
  plus the duration of the decoded buffer. So of two frames handled one after the
  other the second starts at the start of the first plus its duration, or at the
  clock if that is later.
\<close>

theorem playback_back_to_back:
  assumes "msg_audio m1 = Inr (Some a1)" "a1 \<noteq> []" "decode a1 = Inr bytes1"
    and "decodeAudioData bytes1 ctx 24000 1 = Inr buf1" "\<not> msg_interrupted m1"
    and "msg_audio m2 = Inr (Some a2)" "a2 \<noteq> []" "decode a2 = Inr bytes2"
    and "decodeAudioData bytes2 ctx 24000 1 = Inr buf2" "\<not> msg_interrupted m2"
  shows "fst (onmessage ctx now1 m1 st) = None
     \<and> sources (snd (onmessage ctx now1 m1 st))
         = sources st @ [\<lparr>node_id = created st, node_buffer = buf1,
                           node_start = max (nextStartTime st) now1\<rparr>]
     \<and> nextStartTime (snd (onmessage ctx now1 m1 st))
         = max (nextStartTime st) now1 + duration buf1
     \<and> fst (onmessage ctx now2 m2 (snd (onmessage ctx now1 m1 st))) = None
     \<and> sources (snd (onmessage ctx now2 m2 (snd (onmessage ctx now1 m1 st))))
         = sources st @ [\<lparr>node_id = created st, node_buffer = buf1,
                           node_start = max (nextStartTime st) now1\<rparr>,
                         \<lparr>node_id = Suc (created st), node_buffer = buf2,
                           node_start = max (max (nextStartTime st) now1 + duration buf1) now2\<rparr>]
     \<and> nextStartTime (snd (onmessage ctx now2 m2 (snd (onmessage ctx now1 m1 st))))
         = max (max (nextStartTime st) now1 + duration buf1) now2 + duration buf2"
  unfolding onmessage_frame[OF assms(1-5)] onmessage_frame[OF assms(6-10)]
  by simp

theorem playback_back_to_back_witness:
  "map node_start (sources (snd (onmessage reference_limits 5 silent_frame
       (snd (onmessage reference_limits 5 silent_frame initial_playback)))))
     = [5, 5 + 1 / 24000]
   \<and> nextStartTime (snd (onmessage reference_limits 9 silent_frame
       (snd (onmessage reference_limits 5 silent_frame initial_playback))))
     = 9 + 1 / 24000"
proof -
  have m: "msg_audio silent_frame = Inr (Some ''AAA='')" "''AAA='' \<noteq> []"
    "\<not> msg_interrupted silent_frame"
    by (simp_all add: silent_frame_def audio_message_def msg_audio_def msg_interrupted_def)
  note a = playback_back_to_back[OF m(1,2) decode_silent_frame decodeAudioData_silence m(3)
      m(1,2) decode_silent_frame decodeAudioData_silence m(3), of 5 initial_playback]
  show ?thesis
    using a[of 5] a[of 9] by (simp add: initial_playback_def duration_def silence_def)
qed

lemma onmessage_interrupted:
  assumes "msg_interrupted m" "onmessage ctx now m st = (None, st')"
  shows "\<exists>st0. st' = interrupt st0 \<and> set (sources st) \<subseteq> set (sources st0)"
proof -
  let ?st = "st\<lparr>forwarded := forwarded st @ [m]\<rparr>"
  from assms(2) obtain audio where au: "msg_audio m = Inr audio"
    by (cases "msg_audio m") (auto simp: onmessage_def Let_def)
  show ?thesis
  proof (cases "\<exists>a. audio = Some a \<and> a \<noteq> []")
    case False
    with au assms have "st' = interrupt ?st"
      by (cases audio) (auto simp: onmessage_def Let_def)
    then show ?thesis by (intro exI[of _ ?st]) simp
  next
    case True
    then obtain a where a: "audio = Some a" "a \<noteq> []" by blast
    obtain e s where r: "schedule_audio ctx now a ?st = (e, s)"
      by (cases "schedule_audio ctx now a ?st") auto
    from assms au a r have e: "e = None" and s: "st' = interrupt s"
      by (auto simp: onmessage_def Let_def split: option.splits)
    from r e have "set (sources st) \<subseteq> set (sources s)"
      by (auto simp: schedule_audio_def Let_def split: sum.splits)
    with s show ?thesis by blast
  qed
qed

lemma interrupted_state:
  assumes "msg_interrupted m" "onmessage ctx now m st = (None, st')"
  shows "sources st' = []" "nextStartTime st' = 0" "node_id ` set (sources st) \<subseteq> set (stopped st')"
proof -
  obtain st0 where s: "st' = interrupt st0" "set (sources st) \<subseteq> set (sources st0)"
    using onmessage_interrupted[OF assms] by blast
  show "sources st' = []" "nextStartTime st' = 0"
    unfolding s(1) interrupt_result by simp_all
  have "stopped st' = stopped st0 @ map node_id (sources st0)"
    unfolding s(1) interrupt_result by simp
  then show "node_id ` set (sources st) \<subseteq> set (stopped st')"
    using s(2) by auto
qed

text \<open>
  Claim C6, as amended. The handler runs to its end exactly when reading the audio
  of the message does not throw: a model turn, if present, has its list of parts,
  and audio data, if present and not empty, decodes. When it has run to its end
  on a message that signals an interruption, the set of sources is empty, every
  source that was in it has been stopped, and \<^verbatim>\<open>nextStartTime\<close> is 0: the next
  frame that decodes starts at the clock value at which it is handled, and is the
  only source.
\<close>

theorem interruption_resets_playback:
  "(fst (onmessage ctx now m st) = None) =
     (case msg_audio m of
        Inl e \<Rightarrow> False
      | Inr None \<Rightarrow> True
      | Inr (Some a) \<Rightarrow>
          a = [] \<or> \<not> isl (bind_err (decode a) (\<lambda>bytes. decodeAudioData bytes ctx 24000 1)))
   \<and> (msg_interrupted m \<and> fst (onmessage ctx now m st) = None \<longrightarrow>
        sources (snd (onmessage ctx now m st)) = []
        \<and> nextStartTime (snd (onmessage ctx now m st)) = 0
        \<and> node_id ` set (sources st) \<subseteq> set (stopped (snd (onmessage ctx now m st)))
        \<and> (msg_audio m2 = Inr (Some a2) \<and> a2 \<noteq> [] \<and> decode a2 = Inr bytes
             \<and> decodeAudioData bytes ctx 24000 1 = Inr buf \<and> \<not> msg_interrupted m2 \<and> 0 \<le> now2 \<longrightarrow>
            map node_start (sources (snd (onmessage ctx now2 m2 (snd (onmessage ctx now m st)))))
              = [now2]))"
proof -
  have "sources (snd (onmessage ctx now m st)) = []
        \<and> nextStartTime (snd (onmessage ctx now m st)) = 0
        \<and> node_id ` set (sources st) \<subseteq> set (stopped (snd (onmessage ctx now m st)))
        \<and> (msg_audio m2 = Inr (Some a2) \<and> a2 \<noteq> [] \<and> decode a2 = Inr bytes
             \<and> decodeAudioData bytes ctx 24000 1 = Inr buf \<and> \<not> msg_interrupted m2 \<and> 0 \<le> now2 \<longrightarrow>
            map node_start (sources (snd (onmessage ctx now2 m2 (snd (onmessage ctx now m st)))))
              = [now2])"
    if i: "msg_interrupted m" and n: "fst (onmessage ctx now m st) = None"
  proof -
    from n have r: "onmessage ctx now m st = (None, snd (onmessage ctx now m st))"
      by (cases "onmessage ctx now m st") simp
    note s = interrupted_state[OF i r]
    have "map node_start (sources (snd (onmessage ctx now2 m2 (snd (onmessage ctx now m st)))))
              = [now2]"
      if f: "msg_audio m2 = Inr (Some a2)" "a2 \<noteq> []" "decode a2 = Inr bytes"
        "decodeAudioData bytes ctx 24000 1 = Inr buf" "\<not> msg_interrupted m2" and z: "0 \<le> now2"
      unfolding onmessage_frame[OF f] using s(1,2) z by simp
    with s show ?thesis by blast
  qed
  with onmessage_completes[of ctx now m st] show ?thesis by blast
qed

theorem interruption_resets_playback_witness:
  "fst (onmessage reference_limits 6 interruption
       (snd (onmessage reference_limits 5 silent_frame initial_playback))) = None
   \<and> sources (snd (onmessage reference_limits 6 interruption
       (snd (onmessage reference_limits 5 silent_frame initial_playback)))) = []
   \<and> stopped (snd (onmessage reference_limits 6 interruption
       (snd (onmessage reference_limits 5 silent_frame initial_playback)))) = [0]
   \<and> map node_start (sources (snd (onmessage reference_limits 7 silent_frame
       (snd (onmessage reference_limits 6 interruption
       (snd (onmessage reference_limits 5 silent_frame initial_playback))))))) = [7]"
proof -
  have m: "msg_audio silent_frame = Inr (Some ''AAA='')" "''AAA='' \<noteq> []"
    "\<not> msg_interrupted silent_frame"
    by (simp_all add: silent_frame_def audio_message_def msg_audio_def msg_interrupted_def)
  have i: "msg_interrupted interruption" "msg_audio interruption = Inr None"
    by (simp_all add: interruption_def msg_audio_def msg_interrupted_def)
  define st where "st = snd (onmessage reference_limits 5 silent_frame initial_playback)"
  have st: "sources st = [\<lparr>node_id = 0, node_buffer = silence, node_start = 5\<rparr>]" "stopped st = []"
    unfolding st_def onmessage_frame[OF m(1,2) decode_silent_frame decodeAudioData_silence m(3)]
    by (simp_all add: initial_playback_def)
  have s: "stopped (snd (onmessage reference_limits 6 interruption st)) = [0]"
    by (simp add: onmessage_def Let_def interrupt_result st i)
  have z: "(0::rat) \<le> 7" by simp
  show ?thesis
    using interruption_resets_playback[of reference_limits 6 interruption st silent_frame
        "''AAA=''" "[0, 0]" silence 7]
      i m decode_silent_frame decodeAudioData_silence z s
    unfolding st_def by simp
qed

text \<open>
  The claim as first stated fails on an interruption whose own audio does not
  decode, and on one whose model turn has no parts: the handler throws before it
  looks at the interruption, and the source scheduled before stays in the set,
  not stopped.
\<close>

theorem interruption_lost_when_audio_throws:
  "msg_interrupted (audio_message ''AA=='' True)
   \<and> fst (onmessage reference_limits 6 (audio_message ''AA=='' True)
       (snd (onmessage reference_limits 5 silent_frame initial_playback))) = Some RangeError
   \<and> sources (snd (onmessage reference_limits 6 (audio_message ''AA=='' True)
       (snd (onmessage reference_limits 5 silent_frame initial_playback))))
       = [\<lparr>node_id = 0, node_buffer = silence, node_start = 5\<rparr>]
   \<and> stopped (snd (onmessage reference_limits 6 (audio_message ''AA=='' True)
       (snd (onmessage reference_limits 5 silent_frame initial_playback)))) = []
   \<and> msg_interrupted interruption_without_parts
   \<and> fst (onmessage reference_limits 6 interruption_without_parts
       (snd (onmessage reference_limits 5 silent_frame initial_playback))) = Some TypeError
   \<and> sources (snd (onmessage reference_limits 6 interruption_without_parts
       (snd (onmessage reference_limits 5 silent_frame initial_playback))))
       = [\<lparr>node_id = 0, node_buffer = silence, node_start = 5\<rparr>]
   \<and> stopped (snd (onmessage reference_limits 6 interruption_without_parts
       (snd (onmessage reference_limits 5 silent_frame initial_playback)))) = []"
proof -
  have m: "msg_audio silent_frame = Inr (Some ''AAA='')" "''AAA='' \<noteq> []"
    "\<not> msg_interrupted silent_frame"
    by (simp_all add: silent_frame_def audio_message_def msg_audio_def msg_interrupted_def)
  define st where "st = snd (onmessage reference_limits 5 silent_frame initial_playback)"
  have st: "sources st = [\<lparr>node_id = 0, node_buffer = silence, node_start = 5\<rparr>]" "stopped st = []"
    unfolding st_def onmessage_frame[OF m(1,2) decode_silent_frame decodeAudioData_silence m(3)]
    by (simp_all add: initial_playback_def)
  have b: "msg_audio (audio_message ''AA=='' True) = Inr (Some ''AA=='')" "''AA=='' \<noteq> []"
    "msg_interrupted (audio_message ''AA=='' True)"
    by (simp_all add: audio_message_def msg_audio_def msg_interrupted_def)
  have d: "decode ''AA=='' = Inr [0]"
    by (simp add: decode_def atob_def b64chars_def bind_err_def strip_padding_def
        is_ascii_whitespace_def)
  have f: "bind_err (decode ''AA=='') (\<lambda>bytes. decodeAudioData bytes reference_limits 24000 1)
      = Inl RangeError"
    unfolding d bind_err_def using decodeAudioData_odd[of "[0]" reference_limits 24000 1] by simp
  have p: "msg_audio interruption_without_parts = Inl TypeError"
    "msg_interrupted interruption_without_parts"
    by (simp_all add: interruption_without_parts_def msg_audio_def msg_interrupted_def)
  show ?thesis
    unfolding st_def[symmetric] onmessage_bad_audio[OF b(1,2) f] onmessage_no_parts[OF p(1)]
    using b(3) p(2) st by simp
qed

lemma close_fields:
  "scriptProcessor (close r) = map_option (\<lambda>node. Disconnected) (scriptProcessor r)"
  "inputAudioContext (close r) = map_option (\<lambda>c. Closed) (inputAudioContext r)"
  "audioStream (close r) = map_option (map (\<lambda>track. Ended)) (audioStream r)"
  "outputAudioContext (close r) = Closed"
  "session (close r) = SocketClosed"
  by (auto simp: close_def context_close_def Let_def
      split: option.splits context_state.splits prod.splits)

lemma close_calls:
  "release_calls (close r) = release_calls r
     @ (case scriptProcessor r of None \<Rightarrow> [] | Some node \<Rightarrow> [ProcessorDisconnect])
     @ (case inputAudioContext r of None \<Rightarrow> [] | Some c \<Rightarrow> [InputContextClose])
     @ (case audioStream r of None \<Rightarrow> [] | Some tracks \<Rightarrow> map TrackStop [0..<length tracks])
     @ [OutputContextClose, SessionClose]"
  by (auto simp: close_def context_close_def Let_def
      split: option.splits context_state.splits prod.splits)

lemma close_rejections:
  "unhandled_rejections (close r) = unhandled_rejections r
     @ (case inputAudioContext r of Some Closed \<Rightarrow> [InvalidStateError] | _ \<Rightarrow> [])
     @ (case outputAudioContext r of Closed \<Rightarrow> [InvalidStateError] | Running \<Rightarrow> [])"
  by (auto simp: close_def context_close_def Let_def
      split: option.splits context_state.splits prod.splits)

text \<open>
  Claim C7, as amended. \<^verbatim>\<open>close\<close> has no guard. Invoked twice in a row it
  returns both times and leaves the five resources in the state one invocation
  leaves them in, but the second invocation issues every release call of the
  first again, and each of its calls to close an audio context that is already
  closed yields a rejected promise that nothing handles.
\<close>

theorem close_twice_same_state:
  "resource_state (close (close r)) = resource_state (close r)
   \<and> release_calls (close (close r)) = release_calls (close r)
       @ (case scriptProcessor r of None \<Rightarrow> [] | Some node \<Rightarrow> [ProcessorDisconnect])
       @ (case inputAudioContext r of None \<Rightarrow> [] | Some c \<Rightarrow> [InputContextClose])
       @ (case audioStream r of None \<Rightarrow> [] | Some tracks \<Rightarrow> map TrackStop [0..<length tracks])
       @ [OutputContextClose, SessionClose]
   \<and> unhandled_rejections (close (close r)) = unhandled_rejections (close r)
       @ (case inputAudioContext r of None \<Rightarrow> [] | Some c \<Rightarrow> [InvalidStateError])
       @ [InvalidStateError]"
  unfolding resource_state_def close_calls[of "close r"] close_rejections[of "close r"]
  by (simp add: close_fields option.map_comp comp_def split: option.splits)

text \<open>
  The claim as first stated fails on a session opened with one microphone track:
  after two invocations every release call has been made twice, not once, and two
  promises were rejected with \<^verbatim>\<open>InvalidStateError\<close>.
\<close>

theorem close_twice_repeats_releases:
  "startLiveConversation \<lparr>connect_result = None, getUserMedia_result = Inr 1\<rparr> = Inr open_session
   \<and> release_calls (close open_session)
       = [ProcessorDisconnect, InputContextClose, TrackStop 0, OutputContextClose, SessionClose]
   \<and> release_calls (close (close open_session))
       = [ProcessorDisconnect, InputContextClose, TrackStop 0, OutputContextClose, SessionClose,
          ProcessorDisconnect, InputContextClose, TrackStop 0, OutputContextClose, SessionClose]
   \<and> unhandled_rejections (close open_session) = []
   \<and> unhandled_rejections (close (close open_session)) = [InvalidStateError, InvalidStateError]"
  by (simp add: close_calls close_rejections close_fields open_session_def
      startLiveConversation_def onopen_def)

text \<open>
  Claim C8 asks that a failure of the microphone capture fails the open. On an
  established connection with the microphone denied, the code returns a handle on
  an open session with no capture pipeline, and the rejection stays unhandled.
\<close>

theorem start_ignores_microphone_failure:
  "startLiveConversation \<lparr>connect_result = None, getUserMedia_result = Inl NotAllowedError\<rparr> =
     Inr \<lparr>audioStream = None, inputAudioContext = None, scriptProcessor = None,
          outputAudioContext = Running, session = SocketOpen,
          release_calls = [], unhandled_rejections = [NotAllowedError]\<rparr>"
  by (simp add: startLiveConversation_def onopen_def)


end
